theory Spec2Isabelle
  imports Main
begin

section \<open>Strings\<close>

text \<open>
  A JavaScript string is a sequence of UTF-16 code units; \<open>length\<close> counts code units.
  The model uses \<^typ>\<open>string\<close>, one \<^typ>\<open>char\<close> per code unit, which covers the code
  units below 256. Every pattern, selector and marker of \<open>ArticleParser\<close> lies in that
  range.
\<close>

definition isWS :: "char \<Rightarrow> bool" where
  \<comment> \<open>WhiteSpace and LineTerminator of ECMAScript (what \<open>trim\<close> strips and \<open>\\s\<close> matches),
      below 256: TAB, LF, VT, FF, CR, SPACE, NBSP.\<close>
  "isWS c = (c = CHR 0x09 \<or> c = CHR 0x0A \<or> c = CHR 0x0B \<or> c = CHR 0x0C \<or> c = CHR 0x0D
             \<or> c = CHR 0x20 \<or> c = CHR 0xA0)"

definition isLineTerminator :: "char \<Rightarrow> bool" where
  \<comment> \<open>what \<open>.\<close> does not match: LF and CR (U+2028 and U+2029 are outside the model).\<close>
  "isLineTerminator c = (c = CHR 0x0A \<or> c = CHR 0x0D)"

definition trim :: "string \<Rightarrow> string" where
  \<comment> \<open>\<open>String.prototype.trim\<close>\<close>
  "trim s = rev (dropWhile isWS (rev (dropWhile isWS s)))"

definition isAsciiUpper :: "char \<Rightarrow> bool" where
  "isAsciiUpper c = (65 \<le> (of_char c :: nat) \<and> (of_char c :: nat) \<le> 90)"

definition isAsciiLower :: "char \<Rightarrow> bool" where
  "isAsciiLower c = (97 \<le> (of_char c :: nat) \<and> (of_char c :: nat) \<le> 122)"

definition isDigit :: "char \<Rightarrow> bool" where
  "isDigit c = (48 \<le> (of_char c :: nat) \<and> (of_char c :: nat) \<le> 57)"

definition isWordChar :: "char \<Rightarrow> bool" where
  \<comment> \<open>\<open>\\w\<close>: \<open>[A-Za-z0-9_]\<close>\<close>
  "isWordChar c = (isAsciiUpper c \<or> isAsciiLower c \<or> isDigit c \<or> c = CHR ''_'')"

definition lowerChar :: "char \<Rightarrow> char" where
  \<comment> \<open>\<open>toLowerCase\<close> on one code unit below 256: A-Z, and the Latin-1 capitals
      U+00C0..U+00DE without the multiplication sign U+00D7.\<close>
  "lowerChar c =
     (let n = (of_char c :: nat)
      in if (65 \<le> n \<and> n \<le> 90) \<or> (192 \<le> n \<and> n \<le> 222 \<and> n \<noteq> 215)
         then char_of (n + 32) else c)"

definition toLowerCase :: "string \<Rightarrow> string" where
  "toLowerCase s = map lowerChar s"

definition canonChar :: "char \<Rightarrow> char" where
  \<comment> \<open>Canonicalize of ECMAScript for the \<open>i\<close> flag (no \<open>u\<close> flag): the upper case of
      the code unit, when that is one code unit and does not move a code unit of 128 or
      more below 128. Below 256: a-z, and U+00E0..U+00FE without the division sign U+00F7
      (U+00B5 and U+00FF go to code units above 255, equal to no code unit of the model,
      so they stay; U+00DF has a two-unit upper case, so it stays).\<close>
  "canonChar c =
     (let n = (of_char c :: nat)
      in if (97 \<le> n \<and> n \<le> 122) \<or> (224 \<le> n \<and> n \<le> 254 \<and> n \<noteq> 247)
         then char_of (n - 32) else c)"

fun startsWith :: "string \<Rightarrow> string \<Rightarrow> bool" where
  \<comment> \<open>\<open>s.startsWith(p)\<close>, written \<open>startsWith p s\<close>\<close>
  "startsWith [] s = True"
| "startsWith (p # ps) [] = False"
| "startsWith (p # ps) (c # cs) = (if p = c then startsWith ps cs else False)"

fun includes_str :: "string \<Rightarrow> string \<Rightarrow> bool" where
  \<comment> \<open>\<open>s.includes(p)\<close>, written \<open>includes_str p s\<close>\<close>
  "includes_str p [] = startsWith p []"
| "includes_str p (c # cs) = (if startsWith p (c # cs) then True else includes_str p cs)"

fun join :: "string \<Rightarrow> string list \<Rightarrow> string" where
  \<comment> \<open>\<open>xs.join(sep)\<close>, written \<open>join sep xs\<close>\<close>
  "join sep [] = []"
| "join sep [x] = x"
| "join sep (x # y # ys) = x @ sep @ join sep (y # ys)"

fun split :: "char \<Rightarrow> string \<Rightarrow> string list" where
  \<comment> \<open>\<open>s.split(c)\<close> for a one-character separator: the empty string gives one empty
      piece.\<close>
  "split sep [] = [[]]"
| "split sep (c # cs) =
     (if c = sep then [] # split sep cs
      else (case split sep cs of [] \<Rightarrow> [[c]] | p # ps \<Rightarrow> (c # p) # ps))"

definition blankLine :: string where
  \<comment> \<open>the separator \<open>'\\n\\n'\<close>\<close>
  "blankLine = [CHR 0x0A, CHR 0x0A]"

section \<open>Regular expressions\<close>

text \<open>
  The patterns of the module use literals, the classes \<open>\\d\<close>, \<open>\\w\<close>, \<open>\\s\<close>,
  \<open>[KMB]\<close>, \<open>.\<close>, and sequence, alternation, \<open>*\<close>, \<open>+\<close>, \<open>?\<close>. A pattern is a value
  of \<open>rx\<close>; matching is by derivatives. \<open>rx_full\<close> is a match of the whole
  string (a pattern between \<open>^\<close> and \<open>$\<close>), \<open>rx_test\<close> a match anywhere (a pattern with
  no anchor), \<open>rx_prefix\<close> a match at the start (a pattern with \<open>^\<close> only). The flag is
  the \<open>i\<close> flag.
\<close>

datatype cls = CChar char | CDigit | CWord | CSpace | CSet string | CDot | CAny

datatype rx = Null | Eps | Sym cls | Seq rx rx | Alt rx rx | Star rx

fun cls_match :: "bool \<Rightarrow> cls \<Rightarrow> char \<Rightarrow> bool" where
  "cls_match ci (CChar a) c = (if ci then canonChar a = canonChar c else a = c)"
| "cls_match ci CDigit c = isDigit c"
| "cls_match ci CWord c = isWordChar c"
| "cls_match ci CSpace c = isWS c"
| "cls_match ci (CSet as) c =
     (if ci then canonChar c \<in> set (map canonChar as) else c \<in> set as)"
| "cls_match ci CDot c = (if isLineTerminator c then False else True)"
| "cls_match ci CAny c = True"

fun nullable :: "rx \<Rightarrow> bool" where
  "nullable Null = False"
| "nullable Eps = True"
| "nullable (Sym a) = False"
| "nullable (Seq r s) = (nullable r \<and> nullable s)"
| "nullable (Alt r s) = (nullable r \<or> nullable s)"
| "nullable (Star r) = True"

fun seq :: "rx \<Rightarrow> rx \<Rightarrow> rx" where
  \<comment> \<open>sequence, with the dead and the empty pattern simplified away\<close>
  "seq Null s = Null"
| "seq Eps s = s"
| "seq r s = Seq r s"

fun summands :: "rx \<Rightarrow> rx list" where
  \<comment> \<open>the alternatives of a pattern\<close>
  "summands (Alt r s) = summands r @ summands s"
| "summands r = [r]"

definition add_summand :: "rx \<Rightarrow> rx \<Rightarrow> rx" where
  "add_summand x r =
     (if x = Null then r
      else if r = Null then x
      else if x \<in> set (summands r) then r
      else Alt r x)"

definition alt :: "rx \<Rightarrow> rx \<Rightarrow> rx" where
  \<comment> \<open>alternation, with the dead pattern and the alternatives already there left out\<close>
  "alt r s = fold add_summand (summands s) r"

fun deriv :: "bool \<Rightarrow> char \<Rightarrow> rx \<Rightarrow> rx" where
  "deriv ci c Null = Null"
| "deriv ci c Eps = Null"
| "deriv ci c (Sym a) = (if cls_match ci a c then Eps else Null)"
| "deriv ci c (Seq r s) =
     (if nullable r then alt (seq (deriv ci c r) s) (deriv ci c s)
      else seq (deriv ci c r) s)"
| "deriv ci c (Alt r s) = alt (deriv ci c r) (deriv ci c s)"
| "deriv ci c (Star r) = seq (deriv ci c r) (Star r)"

fun rx_full :: "bool \<Rightarrow> rx \<Rightarrow> string \<Rightarrow> bool" where
  "rx_full ci r [] = nullable r"
| "rx_full ci r (c # cs) = rx_full ci (deriv ci c r) cs"

definition rx_prefix :: "bool \<Rightarrow> rx \<Rightarrow> string \<Rightarrow> bool" where
  "rx_prefix ci r s = rx_full ci (Seq r (Star (Sym CAny))) s"

definition rx_test :: "bool \<Rightarrow> rx \<Rightarrow> string \<Rightarrow> bool" where
  "rx_test ci r s = rx_full ci (Seq (Star (Sym CAny)) (Seq r (Star (Sym CAny)))) s"

fun lit :: "string \<Rightarrow> rx" where
  "lit [] = Eps"
| "lit [c] = Sym (CChar c)"
| "lit (c # cs) = Seq (Sym (CChar c)) (lit cs)"

fun alts :: "rx list \<Rightarrow> rx" where
  "alts [] = Null"
| "alts [r] = r"
| "alts (r # rs) = Alt r (alts rs)"

definition plus :: "rx \<Rightarrow> rx" where
  "plus r = Seq r (Star r)"

definition opt :: "rx \<Rightarrow> rx" where
  "opt r = Alt r Eps"

fun seqs :: "rx list \<Rightarrow> rx" where
  "seqs [] = Eps"
| "seqs [r] = r"
| "seqs (r # rs) = Seq r (seqs rs)"

subsection \<open>The language of a pattern\<close>

text \<open>
  What a pattern matches, as a set of strings. \<open>rx_full\<close> is shown below to decide
  membership in it.
\<close>

definition conc :: "string set \<Rightarrow> string set \<Rightarrow> string set" where
  "conc A B = {w. \<exists>u v. w = u @ v \<and> u \<in> A \<and> v \<in> B}"

inductive_set star :: "string set \<Rightarrow> string set" for A :: "string set" where
  star_empty: "[] \<in> star A"
| star_step: "u \<in> A \<Longrightarrow> v \<in> star A \<Longrightarrow> u @ v \<in> star A"

fun lang :: "bool \<Rightarrow> rx \<Rightarrow> string set" where
  "lang ci Null = {}"
| "lang ci Eps = {[]}"
| "lang ci (Sym a) = {w. \<exists>c. w = [c] \<and> cls_match ci a c}"
| "lang ci (Seq r s) = conc (lang ci r) (lang ci s)"
| "lang ci (Alt r s) = lang ci r \<union> lang ci s"
| "lang ci (Star r) = star (lang ci r)"

section \<open>The document\<close>

text \<open>
  The engine reads \<open>window.location.pathname\<close>, \<open>document.title\<close> and the element tree.
  A node is a text node or an element with its tag (the lower-case local name: the test
  \<open>el.tagName === 'IMG'\<close> is \<open>tag = ''img''\<close>), its attributes, its \<open>innerText\<close> and
  its children. \<open>innerText\<close> is computed by the browser from the layout, so it is a field
  of the snapshot; \<open>textContent\<close> is computed from the text nodes. Every element is an
  HTML element, whose \<open>innerText\<close> is a string.

  An element reference is the element together with the tags and attributes of its
  ancestors, nearest first: that is what \<open>closest\<close> and the child combinator of a
  selector read of them.
\<close>

datatype node =
    Text string
  | Element (tag: string) (attrs: "(string \<times> string) list") (innerText: string)
      (children: "node list")

type_synonym shell = "string \<times> (string \<times> string) list"

type_synonym elem = "node \<times> shell list"

record document =
  pathname :: string
  doc_title :: string
  root :: node

fun subtree :: "shell list \<Rightarrow> node \<Rightarrow> elem list" where
  \<comment> \<open>the elements of a subtree in document order, its root first\<close>
  "subtree anc (Text s) = []"
| "subtree anc (Element t a i cs) =
     (Element t a i cs, anc) # concat (map (subtree ((t, a) # anc)) cs)"

fun descendants :: "elem \<Rightarrow> elem list" where
  \<comment> \<open>the descendant elements of an element, in document order, itself excluded\<close>
  "descendants (Text s, anc) = []"
| "descendants (Element t a i cs, anc) = concat (map (subtree ((t, a) # anc)) cs)"

fun shells :: "elem \<Rightarrow> shell list" where
  \<comment> \<open>the element and its ancestors, nearest first\<close>
  "shells (Text s, anc) = anc"
| "shells (Element t a i cs, anc) = (t, a) # anc"

fun textContent :: "node \<Rightarrow> string" where
  \<comment> \<open>the text nodes of the subtree, concatenated\<close>
  "textContent (Text s) = s"
| "textContent (Element t a i cs) = concat (map textContent cs)"

fun getAttribute :: "string \<Rightarrow> elem \<Rightarrow> string option" where
  "getAttribute name (Text s, anc) = None"
| "getAttribute name (Element t a i cs, anc) = map_of a name"

fun elem_tag :: "elem \<Rightarrow> string" where
  "elem_tag (Text s, anc) = []"
| "elem_tag (Element t a i cs, anc) = t"

fun elem_innerText :: "elem \<Rightarrow> string" where
  \<comment> \<open>\<open>el.innerText || ''\<close>\<close>
  "elem_innerText (Text s, anc) = []"
| "elem_innerText (Element t a i cs, anc) = i"

subsection \<open>Selectors\<close>

text \<open>
  The selectors of the module: a list of alternatives (the comma), each a compound of
  simple selectors, with at most one child combinator (\<open>span > span\<close>). A selector is
  matched against the chain of shells of an element: the element first, then its parent.
\<close>

datatype simple_sel =
    Tag string
  | AttrEq string string
  | AttrEqI string string
  | AttrPrefix string string
  | AttrContains string string
  | HasAttr string
  | Class string

text \<open>
  \<open>Tag t\<close> is \<open>t\<close>; \<open>AttrEq n v\<close> is \<open>[n="v"]\<close>; \<open>AttrEqI\<close> is the same for the
  attribute \<open>dir\<close>, whose value HTML compares without case; \<open>AttrPrefix n v\<close> is
  \<open>[n^="v"]\<close>; \<open>AttrContains n v\<close> is \<open>[n*="v"]\<close>; \<open>HasAttr n\<close> is \<open>[n]\<close>;
  \<open>Class c\<close> is \<open>.c\<close>.
\<close>

datatype complex_sel =
    Compound "simple_sel list"
  | Child "simple_sel list" "simple_sel list"

type_synonym selector = "complex_sel list"

definition isAsciiSpace :: "char \<Rightarrow> bool" where
  \<comment> \<open>the ASCII white space of HTML: TAB, LF, FF, CR, SPACE\<close>
  "isAsciiSpace c = (c = CHR 0x09 \<or> c = CHR 0x0A \<or> c = CHR 0x0C \<or> c = CHR 0x0D \<or> c = CHR 0x20)"

fun words :: "string \<Rightarrow> string list" where
  \<comment> \<open>the tokens of a \<open>class\<close> attribute, split at ASCII white space; empty pieces stay
      and match no class name\<close>
  "words [] = [[]]"
| "words (c # cs) =
     (if isAsciiSpace c then [] # words cs
      else (case words cs of [] \<Rightarrow> [[c]] | w # ws \<Rightarrow> (c # w) # ws))"

fun matches_simple :: "simple_sel \<Rightarrow> shell \<Rightarrow> bool" where
  "matches_simple (Tag t) (tg, a) = (tg = t)"
| "matches_simple (AttrEq n v) (tg, a) = (map_of a n = Some v)"
| "matches_simple (AttrEqI n v) (tg, a) =
     (case map_of a n of None \<Rightarrow> False
      | Some w \<Rightarrow> map canonChar w = map canonChar v)"
| "matches_simple (AttrPrefix n v) (tg, a) =
     (case map_of a n of None \<Rightarrow> False | Some w \<Rightarrow> v \<noteq> [] \<and> startsWith v w)"
| "matches_simple (AttrContains n v) (tg, a) =
     (case map_of a n of None \<Rightarrow> False | Some w \<Rightarrow> v \<noteq> [] \<and> includes_str v w)"
| "matches_simple (HasAttr n) (tg, a) = (map_of a n \<noteq> None)"
| "matches_simple (Class c) (tg, a) =
     (case map_of a ''class'' of None \<Rightarrow> False | Some w \<Rightarrow> c \<in> set (words w))"

fun matches_complex :: "complex_sel \<Rightarrow> shell list \<Rightarrow> bool" where
  "matches_complex c [] = False"
| "matches_complex (Compound ss) (e # anc) = list_all (\<lambda>s. matches_simple s e) ss"
| "matches_complex (Child ps ss) [e] = False"
| "matches_complex (Child ps ss) (e # p # anc) =
     (list_all (\<lambda>s. matches_simple s e) ss \<and> list_all (\<lambda>s. matches_simple s p) ps)"

definition matches_chain :: "selector \<Rightarrow> shell list \<Rightarrow> bool" where
  "matches_chain sel ch = list_ex (\<lambda>c. matches_complex c ch) sel"

fun matches :: "selector \<Rightarrow> elem \<Rightarrow> bool" where
  \<comment> \<open>\<open>el.matches(sel)\<close>\<close>
  "matches sel (Text s, anc) = False"
| "matches sel (Element t a i cs, anc) = matches_chain sel ((t, a) # anc)"

definition querySelectorAll :: "selector \<Rightarrow> elem \<Rightarrow> elem list" where
  \<comment> \<open>\<open>el.querySelectorAll(sel)\<close>: the matching descendants, in document order\<close>
  "querySelectorAll sel e = filter (matches sel) (descendants e)"

definition querySelector :: "selector \<Rightarrow> elem \<Rightarrow> elem option" where
  \<comment> \<open>\<open>el.querySelector(sel)\<close>: the first matching descendant, or null\<close>
  "querySelector sel e = List.find (matches sel) (descendants e)"

definition doc_querySelector :: "selector \<Rightarrow> document \<Rightarrow> elem option" where
  \<comment> \<open>\<open>document.querySelector(sel)\<close>: the first matching element of the document\<close>
  "doc_querySelector sel d = List.find (matches sel) (subtree [] (root d))"

fun closest_chain :: "selector \<Rightarrow> shell list \<Rightarrow> shell list option" where
  "closest_chain sel [] = None"
| "closest_chain sel (e # anc) =
     (if matches_chain sel (e # anc) then Some (e # anc) else closest_chain sel anc)"

definition closest :: "selector \<Rightarrow> elem \<Rightarrow> shell list option" where
  \<comment> \<open>\<open>el.closest(sel)\<close>: the element itself or its nearest matching ancestor (with
      that one's own ancestors), or null. The module only tests the result for null.\<close>
  "closest sel e = closest_chain sel (shells e)"

definition testid :: "string \<Rightarrow> selector" where
  \<comment> \<open>\<open>[data-testid="v"]\<close>\<close>
  "testid v = [Compound [AttrEq ''data-testid'' v]]"

definition or_else :: "'a option \<Rightarrow> 'a option \<Rightarrow> 'a option" where
  \<comment> \<open>\<open>a || b\<close> on element references\<close>
  "or_else a b = (case a of None \<Rightarrow> b | Some x \<Rightarrow> Some x)"

section \<open>ArticleParser: the classifier\<close>

definition MIN_SINGLE_TWEET_LENGTH :: nat where
  "MIN_SINGLE_TWEET_LENGTH = 280"

definition MIN_THREAD_CONTENT_LENGTH :: nat where
  "MIN_THREAD_CONTENT_LENGTH = 400"

definition MIN_THREAD_TWEETS :: nat where
  "MIN_THREAD_TWEETS = 2"

text \<open>
  \<open>console.log\<close> is the one effect of the module. The calls behind \<open>DEBUG &&\<close> never
  run (\<open>DEBUG\<close> is the constant \<open>false\<close>); \<open>isArticlePage\<close> has three calls that are
  not behind it. A line of the console is modelled by the values it prints.
\<close>

datatype log_line =
    LongSingleTweet nat          \<comment> \<open>\<open>Long single tweet: n chars\<close>\<close>
  | ThreadFound nat nat string   \<comment> \<open>\<open>Thread: n tweets, m chars by @handle\<close>\<close>
  | NotEnoughContent nat nat     \<comment> \<open>\<open>Not enough content: n tweets, m chars\<close>\<close>

definition isExplicitArticleUrl :: "string \<Rightarrow> bool" where
  \<comment> \<open>\<open>pathname.includes('/article/') || pathname.includes('/i/articles/')\<close>\<close>
  "isExplicitArticleUrl p = (includes_str ''/article/'' p \<or> includes_str ''/i/articles/'' p)"

definition statusPattern :: rx where
  \<comment> \<open>\<open>/\\/status\\/\\d+/\<close>\<close>
  "statusPattern = Seq (lit ''/status/'') (plus (Sym CDigit))"

definition isStatusUrl :: "string \<Rightarrow> bool" where
  "isStatusUrl p = rx_test False statusPattern p"

definition getAuthorHandle :: "document \<Rightarrow> string option" where
  \<comment> \<open>\<open>pathname.match(/^\\/([^/]+)\\//)\<close>: a slash, the longest run of characters that
      are not a slash, which must not be empty, and a slash; the run in lower case.\<close>
  "getAuthorHandle d =
     (case pathname d of [] \<Rightarrow> None
      | c # cs \<Rightarrow>
          if c = CHR ''/'' \<and> takeWhile (\<lambda>x. x \<noteq> CHR ''/'') cs \<noteq> []
             \<and> dropWhile (\<lambda>x. x \<noteq> CHR ''/'') cs \<noteq> []
          then Some (toLowerCase (takeWhile (\<lambda>x. x \<noteq> CHR ''/'') cs))
          else None)"

definition getMainTweetElement :: "document \<Rightarrow> elem option" where
  "getMainTweetElement d =
     (let tweetDetail = or_else (doc_querySelector (testid ''tweet'') d)
                                (doc_querySelector (testid ''tweetDetail'') d)
      in case tweetDetail of
           Some t \<Rightarrow> Some t
         | None \<Rightarrow>
             (case doc_querySelector (testid ''primaryColumn'') d of
                Some primaryColumn \<Rightarrow> querySelector [Compound [Tag ''article'']] primaryColumn
              | None \<Rightarrow> None))"

definition extractAuthorFromElement :: "elem \<Rightarrow> string option" where
  \<comment> \<open>\<open>href.replace(/^\\//, '').split('/')[0].toLowerCase()\<close>: the selector gives an
      \<open>href\<close> that starts with a slash, so \<open>if (href)\<close> holds.\<close>
  "extractAuthorFromElement element =
     (case querySelector (testid ''User-Name'') element of
        None \<Rightarrow> None
      | Some userNameEl \<Rightarrow>
          (case querySelector [Compound [Tag ''a'', AttrPrefix ''href'' ''/'']] userNameEl of
             None \<Rightarrow> None
           | Some handle \<Rightarrow>
               (case getAttribute ''href'' handle of
                  None \<Rightarrow> None
                | Some href \<Rightarrow>
                    if href = [] then None
                    else Some (toLowerCase (hd (split (CHR ''/'')
                           (if startsWith ''/'' href then tl href else href)))))))"

definition tweetTextLength :: "elem \<Rightarrow> nat" where
  \<comment> \<open>\<open>tweetText ? (tweetText.innerText || '').length : 0\<close> for
      \<open>tweetText = el.querySelector('[data-testid="tweetText"]')\<close>\<close>
  "tweetTextLength el =
     (case querySelector (testid ''tweetText'') el of
        None \<Rightarrow> 0
      | Some tweetText \<Rightarrow> length (elem_innerText tweetText))"

definition thread_step :: "string \<Rightarrow> elem \<Rightarrow> nat \<times> nat \<Rightarrow> nat \<times> nat" where
  \<comment> \<open>the body of the loop of check 5, on \<open>(authorTweetCount, totalAuthorContent)\<close>\<close>
  "thread_step authorHandle tweet st =
     (if closest (testid ''quoteTweet'') tweet \<noteq> None then st
      else if extractAuthorFromElement tweet = Some authorHandle
           then (fst st + 1, snd st + tweetTextLength tweet)
           else st)"

definition articleContainer :: "document \<Rightarrow> elem option" where
  "articleContainer d =
     or_else (doc_querySelector (testid ''twitterArticleReadView'') d)
    (or_else (doc_querySelector (testid ''article'') d)
    (or_else (doc_querySelector (testid ''articleViewer'') d)
    (or_else (doc_querySelector (testid ''article-cover'') d)
             (doc_querySelector (testid ''noteContent'') d))))"

definition isLabelSpan :: "elem \<Rightarrow> bool" where
  \<comment> \<open>\<open>text === 'Article' || text === 'Notes'\<close> for
      \<open>text = (span.textContent || '').trim()\<close>\<close>
  "isLabelSpan span =
     (trim (textContent (fst span)) = ''Article'' \<or> trim (textContent (fst span)) = ''Notes'')"

definition threadCheck :: "document \<Rightarrow> elem \<Rightarrow> bool \<times> log_line list" where
  \<comment> \<open>check 5 of \<open>isArticlePage\<close>, and the default when it does not fire\<close>
  "threadCheck d primaryColumn =
     (case getAuthorHandle d of
        None \<Rightarrow> (False, [])
      | Some authorHandle \<Rightarrow>
          (let allTweets = querySelectorAll
                 [Compound [Tag ''article'', AttrEq ''data-testid'' ''tweet'']] primaryColumn;
               st = fold (thread_step authorHandle) allTweets (0, 0);
               authorTweetCount = fst st;
               totalAuthorContent = snd st
           in if authorTweetCount \<ge> MIN_THREAD_TWEETS
                 \<and> totalAuthorContent \<ge> MIN_THREAD_CONTENT_LENGTH
              then (True, [ThreadFound authorTweetCount totalAuthorContent authorHandle])
              else (False, [NotEnoughContent authorTweetCount totalAuthorContent])))"

definition mainTweetCheck :: "document \<Rightarrow> elem \<Rightarrow> bool \<times> log_line list" where
  \<comment> \<open>from \<open>getMainTweetElement()\<close> on: check 4, then check 5\<close>
  "mainTweetCheck d primaryColumn =
     (case getMainTweetElement d of
        None \<Rightarrow> (False, [])
      | Some mainTweet \<Rightarrow>
          (let mainTextLength = tweetTextLength mainTweet
           in if mainTextLength > MIN_SINGLE_TWEET_LENGTH
              then (True, [LongSingleTweet mainTextLength])
              else threadCheck d primaryColumn))"

definition isArticlePage_run :: "document \<Rightarrow> bool \<times> log_line list" where
  \<comment> \<open>\<open>isArticlePage()\<close>: the verdict, and the lines it writes to the console\<close>
  "isArticlePage_run d =
     (if isExplicitArticleUrl (pathname d) then (True, [])
      else if isStatusUrl (pathname d)
      then (case doc_querySelector (testid ''primaryColumn'') d of
              None \<Rightarrow> (False, [])
            | Some primaryColumn \<Rightarrow>
                (if articleContainer d \<noteq> None then (True, [])
                 else if list_ex isLabelSpan
                           (querySelectorAll [Compound [Tag ''span'']] primaryColumn)
                 then (True, [])
                 else if doc_querySelector (testid ''tweet-text-show-more-link'') d \<noteq> None
                 then (True, [])
                 else mainTweetCheck d primaryColumn))
      else (False, []))"

definition isArticlePage :: "document \<Rightarrow> bool" where
  "isArticlePage d = fst (isArticlePage_run d)"

section \<open>ArticleParser: text utilities and the noise filters\<close>

function collapse_ws :: "string \<Rightarrow> string" where
  \<comment> \<open>\<open>text.replace(/\\s+/g, ' ')\<close>: every maximal run of white space becomes one space\<close>
  "collapse_ws [] = []"
| "collapse_ws (c # cs) =
     (if isWS c then CHR '' '' # collapse_ws (dropWhile isWS cs) else c # collapse_ws cs)"
  by pat_completeness auto
termination
  by (relation "measure length") (auto simp: less_Suc_eq_le length_dropWhile_le)

function collapse_blank :: "string \<Rightarrow> string" where
  \<comment> \<open>\<open>text.replace(/\\n\\s*\\n/g, '\\n')\<close>: at a line feed, the greedy \<open>\\s*\<close> takes the
      run of white space that follows and gives back to its last line feed; the match,
      when the run has a line feed, becomes one line feed.\<close>
  "collapse_blank [] = []"
| "collapse_blank (c # cs) =
     (if c = CHR 0x0A \<and> CHR 0x0A \<in> set (takeWhile isWS cs)
      then CHR 0x0A # collapse_blank
             (drop (length (takeWhile isWS cs)
                    - length (takeWhile (\<lambda>x. x \<noteq> CHR 0x0A) (rev (takeWhile isWS cs)))) cs)
      else c # collapse_blank cs)"
  by pat_completeness auto
termination
  by (relation "measure length") auto

definition cleanText :: "string \<Rightarrow> string" where
  \<comment> \<open>\<open>if (!text) return ''\<close> is the first equation of \<open>collapse_ws\<close> and the rest on
      the empty string\<close>
  "cleanText text = trim (collapse_blank (collapse_ws text))"

definition buttonPatterns :: "(bool \<times> rx) list" where
  \<comment> \<open>each pattern with its \<open>i\<close> flag; all are between \<open>^\<close> and \<open>$\<close>\<close>
  "buttonPatterns =
     [(True, alts (map lit [''Like'', ''Repost'', ''Reply'', ''Share'', ''Bookmark'',
                            ''Copy link'', ''More''])),
      (True, seqs [plus (Sym CDigit), opt (lit ''.''), Star (Sym CDigit),
                   opt (Sym (CSet ''KMB''))]),
      (True, lit ''Follow''),
      (True, lit ''Following''),
      (False, lit [CHR 0xC2, CHR 0xB7])]"

definition isButtonText :: "string \<Rightarrow> bool" where
  \<comment> \<open>the loop over \<open>buttonPatterns\<close>: \<open>pattern.test(text.trim())\<close> for one of them\<close>
  "isButtonText text =
     (let t = trim text in list_ex (\<lambda>p. rx_full (fst p) (snd p) t) buttonPatterns)"

definition uiContainers :: selector where
  \<comment> \<open>\<open>nav, footer, button, [role="button"], [role="navigation"]\<close>\<close>
  "uiContainers =
     [Compound [Tag ''nav''], Compound [Tag ''footer''], Compound [Tag ''button''],
      Compound [AttrEq ''role'' ''button''], Compound [AttrEq ''role'' ''navigation'']]"

definition uiPatterns :: "rx list" where
  \<comment> \<open>all with the \<open>i\<close> flag, all between \<open>^\<close> and \<open>$\<close>\<close>
  "uiPatterns =
     [seqs [opt (seqs [plus (Sym CDigit), opt (lit ''.''), Star (Sym CDigit),
                       opt (Sym (CSet ''KMB'')), Star (Sym CSpace)]),
            alts (map lit [''Repost'', ''Like'', ''View'', ''Reply'', ''Quote'', ''Share'',
                           ''Bookmark'', ''More'']),
            opt (lit ''s'')],
      lit ''Show more'',
      lit ''Show this thread'',
      Seq (lit ''Translate '') (alts (map lit [''post'', ''tweet''])),
      Seq (lit ''Replying to @'') (plus (Sym CWord)),
      lit ''Follow'',
      lit ''Following'',
      lit ''Promoted'',
      lit ''Ad'',
      seqs [plus (Sym CDigit), lit '':'', plus (Sym CDigit), Star (Sym CSpace),
            alts (map lit [''AM'', ''PM''])],
      seqs [alts (map lit [''Jan'', ''Feb'', ''Mar'', ''Apr'', ''May'', ''Jun'', ''Jul'',
                           ''Aug'', ''Sep'', ''Oct'', ''Nov'', ''Dec'']),
            plus (Sym CSpace), plus (Sym CDigit), opt (lit '',''), Star (Sym CSpace),
            Star (Sym CDigit)],
      seqs [lit ''Read '', plus (Sym CDigit), lit '' '',
            alts (map lit [''replies'', ''reply''])],
      Seq (lit ''See new '') (alts (map lit [''posts'', ''tweets''])),
      lit ''Who to follow'',
      lit ''Trends for you'',
      lit ''Subscribe'',
      lit ''Get verified'']"

definition matchesUiPattern :: "string \<Rightarrow> bool" where
  \<comment> \<open>the loop over \<open>uiPatterns\<close>: \<open>pattern.test(text.trim())\<close> for one of them\<close>
  "matchesUiPattern text = (let t = trim text in list_ex (\<lambda>p. rx_full True p t) uiPatterns)"

definition isUIElement :: "elem \<Rightarrow> string \<Rightarrow> bool" where
  "isUIElement element text =
     (if closest uiContainers element \<noteq> None then True
      else if length text < 20 then True
      else if length text < 50 then matchesUiPattern text
      else False)"

section \<open>ArticleParser: the extractor\<close>

record content =
  title :: string
  author :: string
  body :: string
  paragraphs :: "string list"

fun walk :: "node \<Rightarrow> string" where
  \<comment> \<open>what the tree walker of \<open>extractTextFromElement\<close> adds at a node and below it:
      the data of a text node, the \<open>alt\<close> of an image when it is not empty, a line feed
      for a \<open>br\<close>\<close>
  "walk (Text s) = s"
| "walk (Element t a i cs) =
     (if t = ''img'' then (case map_of a ''alt'' of None \<Rightarrow> [] | Some v \<Rightarrow> v) else [])
     @ (if t = ''br'' then [CHR 0x0A] else [])
     @ concat (map walk cs)"

fun extractTextFromElement :: "elem \<Rightarrow> string" where
  \<comment> \<open>the walker visits the descendants of the element, not the element\<close>
  "extractTextFromElement (Text s, anc) = cleanText []"
| "extractTextFromElement (Element t a i cs, anc) = cleanText (concat (map walk cs))"

definition titleTail :: rx where
  \<comment> \<open>\<open>\\s+(?:on\\s+X|\\/\\s+X):\<close>\<close>
  "titleTail =
     seqs [plus (Sym CSpace),
           Alt (seqs [lit ''on'', plus (Sym CSpace), lit ''X''])
               (seqs [lit ''/'', plus (Sym CSpace), lit ''X'']),
           lit '':'']"

fun titleCapture :: "string \<Rightarrow> string \<Rightarrow> string option" where
  \<comment> \<open>group 1 of \<open>/^(.+?)\\s+(?:on\\s+X|\\/\\s+X):/\<close>: the shortest start of the title,
      of at least one character and with no line terminator, after which the rest of the
      pattern matches\<close>
  "titleCapture pre [] = None"
| "titleCapture pre (c # cs) =
     (if isLineTerminator c then None
      else if rx_prefix False titleTail cs then Some (pre @ [c])
      else titleCapture (pre @ [c]) cs)"

definition nameFromUserName :: "document \<Rightarrow> string option" where
  \<comment> \<open>the first attempt of \<open>extractAuthor\<close>: the name of the first \<open>User-Name\<close> element\<close>
  "nameFromUserName d =
     (case doc_querySelector (testid ''User-Name'') d of
        None \<Rightarrow> None
      | Some userNameEl \<Rightarrow>
          (case querySelector [Child [Tag ''span''] [Tag ''span'']] userNameEl of
             None \<Rightarrow> None
           | Some nameSpan \<Rightarrow>
               (if elem_innerText nameSpan = [] then None
                else (let name = trim (elem_innerText nameSpan)
                      in if name \<noteq> [] \<and> \<not> startsWith ''@'' name then Some name
                         else None))))"

definition metaAuthor :: "document \<Rightarrow> string" where
  \<comment> \<open>the last attempt of \<open>extractAuthor\<close>: \<open>meta[name="author"]\<close>, else \<open>''\<close>\<close>
  "metaAuthor d =
     (case doc_querySelector [Compound [Tag ''meta'', AttrEq ''name'' ''author'']] d of
        None \<Rightarrow> []
      | Some m \<Rightarrow> (case getAttribute ''content'' m of None \<Rightarrow> [] | Some c \<Rightarrow> c))"

definition extractAuthor :: "document \<Rightarrow> string" where
  "extractAuthor d =
     (case nameFromUserName d of
        Some name \<Rightarrow> name
      | None \<Rightarrow>
          (case titleCapture [] (doc_title d) of
             Some g \<Rightarrow> trim g
           | None \<Rightarrow> metaAuthor d))"

type_synonym collected = "string set \<times> string list"

definition push_new :: "string \<Rightarrow> collected \<Rightarrow> collected" where
  \<comment> \<open>\<open>seenText.add(text); paragraphs.push(text)\<close>\<close>
  "push_new text st = (insert text (fst st), snd st @ [text])"

definition thread_text_step :: "elem \<Rightarrow> collected \<Rightarrow> collected" where
  \<comment> \<open>the body of the loop of \<open>extractThreadContent\<close>\<close>
  "thread_text_step tweetText st =
     (if closest (testid ''quoteTweet'') tweetText \<noteq> None then st
      else (let text = trim (elem_innerText tweetText)
            in if text \<noteq> [] \<and> text \<notin> fst st then push_new text st else st))"

definition finish :: "content \<Rightarrow> string list \<Rightarrow> content" where
  \<comment> \<open>\<open>content.paragraphs = paragraphs; content.body = paragraphs.join('\\n\\n')\<close> and
      the title from a first paragraph shorter than 150\<close>
  "finish c ps =
     (let c1 = c\<lparr>paragraphs := ps, body := join blankLine ps\<rparr>
      in case ps of
           [] \<Rightarrow> c1
         | p # rest \<Rightarrow> (if p \<noteq> [] \<and> length p < 150 then c1\<lparr>title := p\<rparr> else c1))"

definition extractThreadContent :: "document \<Rightarrow> content \<Rightarrow> content" where
  "extractThreadContent d c =
     (case doc_querySelector (testid ''primaryColumn'') d of
        None \<Rightarrow> c
      | Some primaryColumn \<Rightarrow>
          finish c (snd (fold thread_text_step
                           (querySelectorAll (testid ''tweetText'') primaryColumn) ({}, []))))"

definition longformSelector :: selector where
  \<comment> \<open>\<open>[class*="longform-"], .public-DraftStyleDefault-ul, .public-DraftStyleDefault-ol\<close>\<close>
  "longformSelector =
     [Compound [AttrContains ''class'' ''longform-''],
      Compound [Class ''public-DraftStyleDefault-ul''],
      Compound [Class ''public-DraftStyleDefault-ol'']]"

definition longform_step :: "elem \<Rightarrow> string list \<Rightarrow> string list" where
  \<comment> \<open>the body of the loop over the structured content elements\<close>
  "longform_step el ps =
     (if closest (testid ''card.wrapper'') el \<noteq> None then ps
      else if closest (testid ''tweetPhoto'') el \<noteq> None then ps
      else if closest [Compound [AttrEq ''role'' ''link'', AttrContains ''href'' ''/status/'']] el
              \<noteq> None then ps
      else if elem_tag el = ''img'' \<or> elem_tag el = ''video'' then ps
      else (let text = trim (elem_innerText el)
            in if text \<noteq> [] \<and> length text > 0 \<and> \<not> isButtonText text
               then ps @ [text] else ps))"

definition line_step :: "string \<Rightarrow> string list \<Rightarrow> string list" where
  \<comment> \<open>the body of the loop over the lines of the container's text\<close>
  "line_step line ps =
     (let text = trim line
      in if text \<noteq> [] \<and> length text > 0 \<and> \<not> isButtonText text
         then ps @ [text] else ps)"

definition readViewParagraphs :: "elem \<Rightarrow> string list" where
  \<comment> \<open>\<open>paragraphs\<close> of \<open>extractStatusContent\<close> after the structured loop and the
      line fallback\<close>
  "readViewParagraphs articleReadView =
     (let contentElements = querySelectorAll longformSelector articleReadView;
          ps = (if length contentElements > 0 then fold longform_step contentElements []
                else [])
      in if length ps = 0
         then fold line_step (split (CHR 0x0A) (elem_innerText articleReadView)) ps
         else ps)"

definition extractStatusContent :: "document \<Rightarrow> content \<Rightarrow> content" where
  "extractStatusContent d c =
     (let c1 = c\<lparr>author := extractAuthor d\<rparr>
      in case doc_querySelector (testid ''twitterArticleReadView'') d of
           None \<Rightarrow> extractThreadContent d c1
         | Some articleReadView \<Rightarrow>
             (let ps = readViewParagraphs articleReadView
              in if length ps > 0 then finish c1 ps else extractThreadContent d c1))"

definition article_step :: "elem \<Rightarrow> collected \<Rightarrow> collected" where
  \<comment> \<open>the body of the loop of \<open>extractArticleContent\<close>\<close>
  "article_step el st =
     (let text = cleanText (elem_innerText el)
      in if text \<noteq> [] \<and> length text > 10 \<and> text \<notin> fst st \<and> \<not> isUIElement el text
         then push_new text st else st)"

definition articleElement :: "document \<Rightarrow> elem option" where
  \<comment> \<open>the container \<open>extractArticleContent\<close> looks for\<close>
  "articleElement d =
     or_else (doc_querySelector (testid ''article'') d)
    (or_else (doc_querySelector (testid ''articleViewer'') d)
             (doc_querySelector [Compound [Tag ''article'']] d))"

definition extractArticleContent :: "document \<Rightarrow> content \<Rightarrow> content" where
  "extractArticleContent d c =
     (case articleElement d of
        None \<Rightarrow> extractStatusContent d c
      | Some container \<Rightarrow>
          (let c1 = (case querySelector [Compound [Tag ''h1''], Compound [Tag ''h2''],
                                         Compound [AttrEq ''role'' ''heading'']] container of
                       None \<Rightarrow> c
                     | Some titleEl \<Rightarrow> c\<lparr>title := trim (elem_innerText titleEl)\<rparr>);
               c2 = c1\<lparr>author := extractAuthor d\<rparr>;
               paragraphEls = querySelectorAll
                 [Compound [Tag ''p''], Compound [AttrEq ''data-testid'' ''tweetText''],
                  Compound [Tag ''div'', AttrEqI ''dir'' ''auto'', HasAttr ''lang'']] container;
               ps = snd (fold article_step paragraphEls ({}, []))
           in c2\<lparr>paragraphs := ps, body := join blankLine ps\<rparr>))"

definition emptyContent :: content where
  "emptyContent = \<lparr>title = [], author = [], body = [], paragraphs = []\<rparr>"

definition extractContent :: "document \<Rightarrow> content" where
  "extractContent d =
     (if includes_str ''/article/'' (pathname d) then extractArticleContent d emptyContent
      else extractStatusContent d emptyContent)"

definition fallback_step :: "nat \<Rightarrow> elem \<Rightarrow> collected \<Rightarrow> collected" where
  \<comment> \<open>the body of the two loops of \<open>extractFallbackContent\<close>, with the minimum length
      of each (20, then 30)\<close>
  "fallback_step minLength el st =
     (if closest (testid ''quoteTweet'') el \<noteq> None then st
      else (let text = extractTextFromElement el
            in if text \<noteq> [] \<and> length text > minLength \<and> text \<notin> fst st
                  \<and> \<not> isUIElement el text
               then push_new text st else st))"

definition fallbackParagraphs :: "elem \<Rightarrow> string list" where
  "fallbackParagraphs primaryColumn =
     (let st = fold (fallback_step 20)
                 (querySelectorAll (testid ''tweetText'') primaryColumn) ({}, [])
      in if length (snd st) = 0
         then snd (fold (fallback_step 30)
                     (querySelectorAll [Compound [Tag ''div'', HasAttr ''lang'']] primaryColumn)
                     st)
         else snd st)"

definition extractFallbackContent :: "document \<Rightarrow> content" where
  "extractFallbackContent d =
     (let c1 = emptyContent\<lparr>author := extractAuthor d\<rparr>
      in case or_else (doc_querySelector (testid ''primaryColumn'') d)
                      (doc_querySelector [Compound [Tag ''main'']] d) of
           None \<Rightarrow> c1
         | Some primaryColumn \<Rightarrow>
             (let ps = fallbackParagraphs primaryColumn
              in c1\<lparr>paragraphs := ps, body := join blankLine ps\<rparr>))"

definition withAuthor :: "content \<Rightarrow> string" where
  \<comment> \<open>\<open>parts.join('\\n\\n')\<close> for \<open>parts\<close> the line \<open>Article by author\<close>, when the author
      is not empty, and the paragraphs\<close>
  "withAuthor c =
     join blankLine ((if author c \<noteq> [] then [''Article by '' @ author c] else [])
                     @ paragraphs c)"

definition getReadableText :: "document \<Rightarrow> string option" where
  "getReadableText d =
     (let content = extractContent d
      in if length (paragraphs content) = 0
         then (let fallbackContent = extractFallbackContent d
               in if length (paragraphs fallbackContent) > 0
                  then Some (withAuthor fallbackContent)
                  else None)
         else Some (withAuthor content))"

definition getStructuredContent :: "document \<Rightarrow> content" where
  "getStructuredContent d = extractContent d"

section \<open>The engine as a program over its variables\<close>

text \<open>
  The functions of the module assign variables and mutate arrays, sets and objects. Here
  they are written once more as programs over a memory that holds every one of them: a
  declaration \<open>let x = v\<close> or \<open>const x = []\<close> is the assignment the function executes
  when control reaches it, \<open>push\<close>, \<open>add\<close>, \<open>++\<close> and \<open>+=\<close> update the cell, and a call
  starts in the memory that the calls before it have left. A cell keeps its value after
  its function has returned, which is more than the language promises for a local
  variable, so what holds for every incoming memory holds for the module. The functions
  that bind their names once and assign nothing (\<open>getAuthorHandle\<close>,
  \<open>getMainTweetElement\<close>, \<open>extractAuthorFromElement\<close>, \<open>extractAuthor\<close>, \<open>cleanText\<close>,
  \<open>isButtonText\<close>, \<open>isUIElement\<close>) are the ones defined above. The closure of the
  module holds the four constants only.
\<close>

record memory =
  var_authorTweetCount :: nat             \<comment> \<open>\<open>authorTweetCount\<close> of \<open>isArticlePage\<close>\<close>
  var_totalAuthorContent :: nat           \<comment> \<open>\<open>totalAuthorContent\<close> of \<open>isArticlePage\<close>\<close>
  var_content :: content                  \<comment> \<open>the object \<open>content\<close> of \<open>extractContent\<close>\<close>
  var_articleSeenText :: "string set"     \<comment> \<open>\<open>seenText\<close> of \<open>extractArticleContent\<close>\<close>
  var_statusParagraphs :: "string list"   \<comment> \<open>\<open>paragraphs\<close> of \<open>extractStatusContent\<close>\<close>
  var_threadParagraphs :: "string list"   \<comment> \<open>\<open>paragraphs\<close> of \<open>extractThreadContent\<close>\<close>
  var_threadSeenText :: "string set"      \<comment> \<open>\<open>seenText\<close> of \<open>extractThreadContent\<close>\<close>
  var_fallbackContent :: content          \<comment> \<open>the object \<open>content\<close> of \<open>extractFallbackContent\<close>\<close>
  var_fallbackSeenText :: "string set"    \<comment> \<open>\<open>seenText\<close> of \<open>extractFallbackContent\<close>\<close>
  var_text :: string                      \<comment> \<open>\<open>text\<close> of \<open>extractTextFromElement\<close>\<close>
  var_parts :: "string list"              \<comment> \<open>\<open>parts\<close> of \<open>getReadableText\<close>\<close>
  var_console :: "log_line list"          \<comment> \<open>what \<open>console.log\<close> has written\<close>

definition console_log :: "log_line \<Rightarrow> memory \<Rightarrow> memory" where
  "console_log l m = m\<lparr>var_console := var_console m @ [l]\<rparr>"

definition count_call :: "string \<Rightarrow> elem \<Rightarrow> memory \<Rightarrow> memory" where
  \<comment> \<open>the body of the loop of check 5\<close>
  "count_call authorHandle tweet m =
     (if closest (testid ''quoteTweet'') tweet \<noteq> None then m
      else if extractAuthorFromElement tweet = Some authorHandle
      then (let m1 = m\<lparr>var_authorTweetCount := var_authorTweetCount m + 1\<rparr>
            in case querySelector (testid ''tweetText'') tweet of
                 None \<Rightarrow> m1
               | Some tweetText \<Rightarrow>
                   m1\<lparr>var_totalAuthorContent :=
                        var_totalAuthorContent m1 + length (elem_innerText tweetText)\<rparr>)
      else m)"

definition threadCheck_call :: "document \<Rightarrow> elem \<Rightarrow> memory \<Rightarrow> bool \<times> memory" where
  "threadCheck_call d primaryColumn m =
     (case getAuthorHandle d of
        None \<Rightarrow> (False, m)
      | Some authorHandle \<Rightarrow>
          (let allTweets = querySelectorAll
                 [Compound [Tag ''article'', AttrEq ''data-testid'' ''tweet'']] primaryColumn;
               m1 = m\<lparr>var_authorTweetCount := 0\<rparr>;
               m2 = m1\<lparr>var_totalAuthorContent := 0\<rparr>;
               m3 = fold (count_call authorHandle) allTweets m2
           in if var_authorTweetCount m3 \<ge> MIN_THREAD_TWEETS
                 \<and> var_totalAuthorContent m3 \<ge> MIN_THREAD_CONTENT_LENGTH
              then (True, console_log (ThreadFound (var_authorTweetCount m3)
                                         (var_totalAuthorContent m3) authorHandle) m3)
              else (False, console_log (NotEnoughContent (var_authorTweetCount m3)
                                          (var_totalAuthorContent m3)) m3)))"

definition mainTweetCheck_call :: "document \<Rightarrow> elem \<Rightarrow> memory \<Rightarrow> bool \<times> memory" where
  "mainTweetCheck_call d primaryColumn m =
     (case getMainTweetElement d of
        None \<Rightarrow> (False, m)
      | Some mainTweet \<Rightarrow>
          (let mainTextLength = tweetTextLength mainTweet
           in if mainTextLength > MIN_SINGLE_TWEET_LENGTH
              then (True, console_log (LongSingleTweet mainTextLength) m)
              else threadCheck_call d primaryColumn m))"

definition isArticlePage_call :: "document \<Rightarrow> memory \<Rightarrow> bool \<times> memory" where
  \<comment> \<open>a call of \<open>isArticlePage()\<close> in a memory: the verdict and the memory it leaves\<close>
  "isArticlePage_call d m =
     (if isExplicitArticleUrl (pathname d) then (True, m)
      else if isStatusUrl (pathname d)
      then (case doc_querySelector (testid ''primaryColumn'') d of
              None \<Rightarrow> (False, m)
            | Some primaryColumn \<Rightarrow>
                (if articleContainer d \<noteq> None then (True, m)
                 else if list_ex isLabelSpan
                           (querySelectorAll [Compound [Tag ''span'']] primaryColumn)
                 then (True, m)
                 else if doc_querySelector (testid ''tweet-text-show-more-link'') d \<noteq> None
                 then (True, m)
                 else mainTweetCheck_call d primaryColumn m))
      else (False, m))"

fun walk_call :: "node \<Rightarrow> memory \<Rightarrow> memory" where
  \<comment> \<open>what the loop of \<open>extractTextFromElement\<close> does at a node and below it\<close>
  "walk_call (Text s) m = m\<lparr>var_text := var_text m @ s\<rparr>"
| "walk_call (Element t a i cs) m =
     (let m1 = (if t = ''img''
                then (case map_of a ''alt'' of
                        None \<Rightarrow> m
                      | Some v \<Rightarrow> m\<lparr>var_text := var_text m @ v\<rparr>)
                else m);
          m2 = (if t = ''br'' then m1\<lparr>var_text := var_text m1 @ [CHR 0x0A]\<rparr> else m1)
      in fold walk_call cs m2)"

fun extractTextFromElement_call :: "elem \<Rightarrow> memory \<Rightarrow> string \<times> memory" where
  "extractTextFromElement_call (Text s, anc) m =
     (let m1 = m\<lparr>var_text := []\<rparr> in (cleanText (var_text m1), m1))"
| "extractTextFromElement_call (Element t a i cs, anc) m =
     (let m1 = m\<lparr>var_text := []\<rparr>;
          m2 = fold walk_call cs m1
      in (cleanText (var_text m2), m2))"

definition thread_text_call :: "elem \<Rightarrow> memory \<Rightarrow> memory" where
  \<comment> \<open>the body of the loop of \<open>extractThreadContent\<close>\<close>
  "thread_text_call tweetText m =
     (if closest (testid ''quoteTweet'') tweetText \<noteq> None then m
      else (let text = trim (elem_innerText tweetText)
            in if text \<noteq> [] \<and> text \<notin> var_threadSeenText m
               then m\<lparr>var_threadSeenText := insert text (var_threadSeenText m),
                      var_threadParagraphs := var_threadParagraphs m @ [text]\<rparr>
               else m))"

definition extractThreadContent_call :: "document \<Rightarrow> memory \<Rightarrow> memory" where
  \<comment> \<open>\<open>extractThreadContent(content)\<close> for the object of \<open>extractContent\<close>, which it
      returns\<close>
  "extractThreadContent_call d m =
     (case doc_querySelector (testid ''primaryColumn'') d of
        None \<Rightarrow> m
      | Some primaryColumn \<Rightarrow>
          (let m1 = m\<lparr>var_threadParagraphs := []\<rparr>;
               m2 = m1\<lparr>var_threadSeenText := {}\<rparr>;
               m3 = fold thread_text_call
                      (querySelectorAll (testid ''tweetText'') primaryColumn) m2
           in m3\<lparr>var_content := finish (var_content m3) (var_threadParagraphs m3)\<rparr>))"

definition longform_call :: "elem \<Rightarrow> memory \<Rightarrow> memory" where
  \<comment> \<open>the body of the loop over the structured content elements\<close>
  "longform_call el m =
     (if closest (testid ''card.wrapper'') el \<noteq> None then m
      else if closest (testid ''tweetPhoto'') el \<noteq> None then m
      else if closest [Compound [AttrEq ''role'' ''link'', AttrContains ''href'' ''/status/'']] el
              \<noteq> None then m
      else if elem_tag el = ''img'' \<or> elem_tag el = ''video'' then m
      else (let text = trim (elem_innerText el)
            in if text \<noteq> [] \<and> length text > 0 \<and> \<not> isButtonText text
               then m\<lparr>var_statusParagraphs := var_statusParagraphs m @ [text]\<rparr>
               else m))"

definition line_call :: "string \<Rightarrow> memory \<Rightarrow> memory" where
  \<comment> \<open>the body of the loop over the lines of the container's text\<close>
  "line_call line m =
     (let text = trim line
      in if text \<noteq> [] \<and> length text > 0 \<and> \<not> isButtonText text
         then m\<lparr>var_statusParagraphs := var_statusParagraphs m @ [text]\<rparr>
         else m)"

definition extractStatusContent_call :: "document \<Rightarrow> memory \<Rightarrow> memory" where
  "extractStatusContent_call d m =
     (let m1 = m\<lparr>var_content := (var_content m)\<lparr>author := extractAuthor d\<rparr>\<rparr>;
          m2 = m1\<lparr>var_statusParagraphs := []\<rparr>
      in case doc_querySelector (testid ''twitterArticleReadView'') d of
           None \<Rightarrow> extractThreadContent_call d m2
         | Some articleReadView \<Rightarrow>
             (let contentElements = querySelectorAll longformSelector articleReadView;
                  m3 = (if length contentElements > 0
                        then fold longform_call contentElements m2 else m2);
                  m4 = (if length (var_statusParagraphs m3) = 0
                        then fold line_call
                               (split (CHR 0x0A) (elem_innerText articleReadView)) m3
                        else m3)
              in if length (var_statusParagraphs m4) > 0
                 then m4\<lparr>var_content := finish (var_content m4) (var_statusParagraphs m4)\<rparr>
                 else extractThreadContent_call d m4))"

definition article_call :: "elem \<Rightarrow> memory \<Rightarrow> memory" where
  \<comment> \<open>the body of the loop of \<open>extractArticleContent\<close>\<close>
  "article_call el m =
     (let text = cleanText (elem_innerText el)
      in if text \<noteq> [] \<and> length text > 10 \<and> text \<notin> var_articleSeenText m
            \<and> \<not> isUIElement el text
         then m\<lparr>var_articleSeenText := insert text (var_articleSeenText m),
                var_content := (var_content m)
                  \<lparr>paragraphs := paragraphs (var_content m) @ [text]\<rparr>\<rparr>
         else m)"

definition extractArticleContent_call :: "document \<Rightarrow> memory \<Rightarrow> memory" where
  "extractArticleContent_call d m =
     (case articleElement d of
        None \<Rightarrow> extractStatusContent_call d m
      | Some container \<Rightarrow>
          (let m1 = (case querySelector [Compound [Tag ''h1''], Compound [Tag ''h2''],
                                         Compound [AttrEq ''role'' ''heading'']] container of
                       None \<Rightarrow> m
                     | Some titleEl \<Rightarrow>
                         m\<lparr>var_content :=
                             (var_content m)\<lparr>title := trim (elem_innerText titleEl)\<rparr>\<rparr>);
               m2 = m1\<lparr>var_content := (var_content m1)\<lparr>author := extractAuthor d\<rparr>\<rparr>;
               paragraphEls = querySelectorAll
                 [Compound [Tag ''p''], Compound [AttrEq ''data-testid'' ''tweetText''],
                  Compound [Tag ''div'', AttrEqI ''dir'' ''auto'', HasAttr ''lang'']] container;
               m3 = m2\<lparr>var_articleSeenText := {}\<rparr>;
               m4 = fold article_call paragraphEls m3
           in m4\<lparr>var_content :=
                   (var_content m4)\<lparr>body := join blankLine (paragraphs (var_content m4))\<rparr>\<rparr>))"

definition extractContent_call :: "document \<Rightarrow> memory \<Rightarrow> content \<times> memory" where
  \<comment> \<open>a call of \<open>extractContent()\<close>: the object it returns and the memory it leaves\<close>
  "extractContent_call d m =
     (let m1 = m\<lparr>var_content := emptyContent\<rparr>;
          m2 = (if includes_str ''/article/'' (pathname d)
                then extractArticleContent_call d m1
                else extractStatusContent_call d m1)
      in (var_content m2, m2))"

definition fallback_call :: "nat \<Rightarrow> elem \<Rightarrow> memory \<Rightarrow> memory" where
  \<comment> \<open>the body of the two loops of \<open>extractFallbackContent\<close>, with the minimum length
      of each (20, then 30)\<close>
  "fallback_call minLength el m =
     (if closest (testid ''quoteTweet'') el \<noteq> None then m
      else (let r = extractTextFromElement_call el m;
                text = fst r;
                m1 = snd r
            in if text \<noteq> [] \<and> length text > minLength \<and> text \<notin> var_fallbackSeenText m1
                  \<and> \<not> isUIElement el text
               then m1\<lparr>var_fallbackSeenText := insert text (var_fallbackSeenText m1),
                       var_fallbackContent := (var_fallbackContent m1)
                         \<lparr>paragraphs := paragraphs (var_fallbackContent m1) @ [text]\<rparr>\<rparr>
               else m1))"

definition extractFallbackContent_call :: "document \<Rightarrow> memory \<Rightarrow> content \<times> memory" where
  "extractFallbackContent_call d m =
     (let m1 = m\<lparr>var_fallbackContent := emptyContent\<rparr>;
          m2 = m1\<lparr>var_fallbackContent := (var_fallbackContent m1)\<lparr>author := extractAuthor d\<rparr>\<rparr>;
          m3 = m2\<lparr>var_fallbackSeenText := {}\<rparr>
      in case or_else (doc_querySelector (testid ''primaryColumn'') d)
                      (doc_querySelector [Compound [Tag ''main'']] d) of
           None \<Rightarrow> (var_fallbackContent m3, m3)
         | Some primaryColumn \<Rightarrow>
             (let m4 = fold (fallback_call 20)
                         (querySelectorAll (testid ''tweetText'') primaryColumn) m3;
                  m5 = (if length (paragraphs (var_fallbackContent m4)) = 0
                        then fold (fallback_call 30)
                               (querySelectorAll [Compound [Tag ''div'', HasAttr ''lang'']]
                                  primaryColumn) m4
                        else m4);
                  m6 = m5\<lparr>var_fallbackContent := (var_fallbackContent m5)
                          \<lparr>body := join blankLine (paragraphs (var_fallbackContent m5))\<rparr>\<rparr>
              in (var_fallbackContent m6, m6)))"

definition parts_call :: "content \<Rightarrow> memory \<Rightarrow> string \<times> memory" where
  \<comment> \<open>\<open>const parts = []\<close>, the two \<open>push\<close> and \<open>parts.join('\\n\\n')\<close>, which
      \<open>getReadableText\<close> has once for each of the two objects\<close>
  "parts_call c m =
     (let m1 = m\<lparr>var_parts := []\<rparr>;
          m2 = (if author c \<noteq> []
                then m1\<lparr>var_parts := var_parts m1 @ [''Article by '' @ author c]\<rparr>
                else m1);
          m3 = m2\<lparr>var_parts := var_parts m2 @ paragraphs c\<rparr>
      in (join blankLine (var_parts m3), m3))"

definition getReadableText_call :: "document \<Rightarrow> memory \<Rightarrow> string option \<times> memory" where
  \<comment> \<open>a call of \<open>getReadableText()\<close> in a memory: the result and the memory it leaves\<close>
  "getReadableText_call d m =
     (let r = extractContent_call d m;
          content = fst r;
          m1 = snd r
      in if length (paragraphs content) = 0
         then (let r2 = extractFallbackContent_call d m1;
                   fallbackContent = fst r2;
                   m2 = snd r2
               in if length (paragraphs fallbackContent) > 0
                  then (let r3 = parts_call fallbackContent m2 in (Some (fst r3), snd r3))
                  else (None, m2))
         else (let r3 = parts_call content m1 in (Some (fst r3), snd r3)))"

section \<open>Notions of the specification\<close>

definition firstOccurrences :: "'a list \<Rightarrow> 'a list" where
  \<comment> \<open>a list without its duplicates: the first occurrence of each element stays, in order\<close>
  "firstOccurrences xs = rev (remdups (rev xs))"

definition threadCandidates :: "elem list \<Rightarrow> string list" where
  \<comment> \<open>the trimmed texts, not empty, of the elements that are not inside a quoted item\<close>
  "threadCandidates es =
     filter (\<lambda>t. t \<noteq> [])
       (map (\<lambda>e. trim (elem_innerText e))
          (filter (\<lambda>e. closest (testid ''quoteTweet'') e = None) es))"

definition authorLine :: "document \<Rightarrow> string list" where
  \<comment> \<open>the line \<open>Article by author\<close>, present when the derived author is not empty\<close>
  "authorLine d = (if extractAuthor d \<noteq> [] then [''Article by '' @ extractAuthor d] else [])"

definition articleKept :: "elem \<Rightarrow> string \<Rightarrow> bool" where
  \<comment> \<open>the text is what the article-path loop keeps of the element\<close>
  "articleKept el t =
     (t = cleanText (elem_innerText el) \<and> t \<noteq> [] \<and> 10 < length t \<and> \<not> isUIElement el t)"

definition fallbackKept :: "nat \<Rightarrow> elem \<Rightarrow> string \<Rightarrow> bool" where
  \<comment> \<open>the text is what a loop of the aggressive fallback keeps of the element\<close>
  "fallbackKept n el t =
     (closest (testid ''quoteTweet'') el = None \<and> t = extractTextFromElement el
      \<and> t \<noteq> [] \<and> n < length t \<and> \<not> isUIElement el t)"

definition pathFirstSegment :: "string \<Rightarrow> string option" where
  \<comment> \<open>the first segment of a path: the path split at its slashes starts with an empty
      piece (the path begins with a slash), then the segment, which is not empty, then
      at least one more piece (a slash ends the segment)\<close>
  "pathFirstSegment p =
     (case split (CHR ''/'') p of
        e # seg # nxt # rest \<Rightarrow> (if e = [] \<and> seg \<noteq> [] then Some seg else None)
      | _ \<Rightarrow> None)"

definition authorItems :: "document \<Rightarrow> elem \<Rightarrow> elem list" where
  \<comment> \<open>the items of the primary region that are not inside a quoted item and whose author
      is the first segment of the path, compared in lower case; none when the path has
      no first segment\<close>
  "authorItems d primaryColumn =
     (case pathFirstSegment (pathname d) of
        None \<Rightarrow> []
      | Some seg \<Rightarrow>
          filter (\<lambda>t. closest (testid ''quoteTweet'') t = None
                       \<and> extractAuthorFromElement t = Some (toLowerCase seg))
            (querySelectorAll [Compound [Tag ''article'', AttrEq ''data-testid'' ''tweet'']]
               primaryColumn))"

definition passesUiFilter :: "elem \<Rightarrow> string \<Rightarrow> bool" where
  \<comment> \<open>the element is not inside a navigation, footer or button container, the text has
      at least 20 characters, and a text shorter than 50 matches no UI pattern\<close>
  "passesUiFilter el t =
     (closest uiContainers el = None \<and> 20 \<le> length t
      \<and> (50 \<le> length t \<or> \<not> matchesUiPattern t))"

definition articleSelector :: selector where
  \<comment> \<open>\<open>p, [data-testid="tweetText"], div[dir="auto"][lang]\<close>\<close>
  "articleSelector =
     [Compound [Tag ''p''], Compound [AttrEq ''data-testid'' ''tweetText''],
      Compound [Tag ''div'', AttrEqI ''dir'' ''auto'', HasAttr ''lang'']]"

definition articleCandidates :: "elem list \<Rightarrow> string list" where
  \<comment> \<open>the cleaned texts, longer than 10 characters, of the elements that pass the UI
      filter, in the order of the elements\<close>
  "articleCandidates es =
     map (\<lambda>e. cleanText (elem_innerText e))
       (filter (\<lambda>e. 10 < length (cleanText (elem_innerText e))
                     \<and> passesUiFilter e (cleanText (elem_innerText e))) es)"

definition fallbackCandidates :: "nat \<Rightarrow> elem list \<Rightarrow> string list" where
  \<comment> \<open>the walked texts, longer than the minimum, of the elements that are not inside a
      quoted item and pass the UI filter, in the order of the elements\<close>
  "fallbackCandidates n es =
     map extractTextFromElement
       (filter (\<lambda>e. closest (testid ''quoteTweet'') e = None
                     \<and> n < length (extractTextFromElement e)
                     \<and> passesUiFilter e (extractTextFromElement e)) es)"

definition structuredTexts :: "elem list \<Rightarrow> string list" where
  \<comment> \<open>the trimmed texts of the content blocks that are not inside a media card, a photo
      or a link to an item and are not an image or a video; not empty, and not a button
      text; every one of them, in the order of the elements\<close>
  "structuredTexts es =
     filter (\<lambda>t. t \<noteq> [] \<and> \<not> isButtonText t)
       (map (\<lambda>e. trim (elem_innerText e))
          (filter (\<lambda>e. closest (testid ''card.wrapper'') e = None
                        \<and> closest (testid ''tweetPhoto'') e = None
                        \<and> closest [Compound [AttrEq ''role'' ''link'',
                                              AttrContains ''href'' ''/status/'']] e = None
                        \<and> elem_tag e \<noteq> ''img'' \<and> elem_tag e \<noteq> ''video'') es))"

definition lineTexts :: "string \<Rightarrow> string list" where
  \<comment> \<open>the trimmed lines of a text that are not empty and not a button text, every one of
      them, in order\<close>
  "lineTexts s =
     filter (\<lambda>t. t \<noteq> [] \<and> \<not> isButtonText t) (map trim (split (CHR 0x0A) s))"

definition fallbackRegion :: "document \<Rightarrow> elem option" where
  \<comment> \<open>the region the aggressive fallback searches: the primary region, else \<open>main\<close>\<close>
  "fallbackRegion d =
     or_else (doc_querySelector (testid ''primaryColumn'') d)
             (doc_querySelector [Compound [Tag ''main'']] d)"

definition usesArticlePath :: "document \<Rightarrow> bool" where
  \<comment> \<open>\<open>extractContent\<close> takes the article-path strategy: the path contains
      \<open>/article/\<close> and the document has an article container\<close>
  "usesArticlePath d =
     (if includes_str ''/article/'' (pathname d)
      then (case articleElement d of None \<Rightarrow> False | Some c \<Rightarrow> True)
      else False)"

definition threadParagraphs :: "document \<Rightarrow> string list" where
  \<comment> \<open>the thread strategy: the first occurrences, in document order, of the texts of
      the text elements of the primary region\<close>
  "threadParagraphs d =
     (case doc_querySelector (testid ''primaryColumn'') d of
        None \<Rightarrow> []
      | Some pc \<Rightarrow>
          firstOccurrences (threadCandidates (querySelectorAll (testid ''tweetText'') pc)))"

definition structuredParagraphs :: "elem \<Rightarrow> string list" where
  \<comment> \<open>the structured-container strategy, and the lines of the container's text when
      it gives nothing; nothing is de-duplicated\<close>
  "structuredParagraphs rv =
     (if structuredTexts (querySelectorAll longformSelector rv) \<noteq> []
      then structuredTexts (querySelectorAll longformSelector rv)
      else lineTexts (elem_innerText rv))"

definition articleParagraphs :: "elem \<Rightarrow> string list" where
  \<comment> \<open>the article-path strategy: the first occurrences, in document order\<close>
  "articleParagraphs container =
     firstOccurrences (articleCandidates (querySelectorAll articleSelector container))"

definition aggressiveParagraphs :: "elem \<Rightarrow> string list" where
  \<comment> \<open>the aggressive fallback: the first pass over the text elements with the minimum
      20, and when it gives nothing the second pass over \<open>div[lang]\<close> with the minimum 30\<close>
  "aggressiveParagraphs region =
     (if firstOccurrences
           (fallbackCandidates 20 (querySelectorAll (testid ''tweetText'') region)) \<noteq> []
      then firstOccurrences
             (fallbackCandidates 20 (querySelectorAll (testid ''tweetText'') region))
      else firstOccurrences
             (fallbackCandidates 30
                (querySelectorAll [Compound [Tag ''div'', HasAttr ''lang'']] region)))"

section \<open>Example documents\<close>

fun renderedText :: "node \<Rightarrow> string" where
  "renderedText (Text s) = s"
| "renderedText (Element t a i cs) = i"

definition box :: "string \<Rightarrow> (string \<times> string) list \<Rightarrow> node list \<Rightarrow> node" where
  \<comment> \<open>an element that renders its children one per line\<close>
  "box t a cs = Element t a (join [CHR 0x0A] (map renderedText cs)) cs"

definition leaf :: "string \<Rightarrow> (string \<times> string) list \<Rightarrow> string \<Rightarrow> node" where
  \<comment> \<open>an element that holds one text\<close>
  "leaf t a text = Element t a text [Text text]"

definition tweetItem :: "string \<Rightarrow> string \<Rightarrow> node" where
  \<comment> \<open>a content item: an \<open>article\<close> with the link to its author and its text\<close>
  "tweetItem handle text =
     box ''article'' [(''data-testid'', ''tweet'')]
       [box ''div'' [(''data-testid'', ''User-Name'')]
          [leaf ''a'' [(''href'', CHR ''/'' # handle)] (CHR ''@'' # handle)],
        leaf ''div'' [(''data-testid'', ''tweetText'')] text]"

definition statusPage :: "string \<Rightarrow> node list \<Rightarrow> document" where
  \<comment> \<open>a single-item page of \<open>alice\<close> with the given items in its primary region\<close>
  "statusPage t items =
     \<lparr>pathname = ''/alice/status/123'', doc_title = t,
      root = box ''html'' [] [box ''div'' [(''data-testid'', ''primaryColumn'')] items]\<rparr>"


definition feedPage :: document where
  \<comment> \<open>a listing page that holds a long item\<close>
  "feedPage = (statusPage [] [tweetItem ''alice'' (replicate 300 (CHR ''a''))])
                \<lparr>pathname := ''/home''\<rparr>"

definition bareArticlePage :: document where
  \<comment> \<open>an article path on a document that has no primary region yet\<close>
  "bareArticlePage = \<lparr>pathname = ''/i/articles/77'', doc_title = [], root = box ''html'' [] []\<rparr>"

definition pcOf :: "node list \<Rightarrow> elem" where
  \<comment> \<open>the reference to the primary region of \<open>statusPage t items\<close>\<close>
  "pcOf items = (box ''div'' [(''data-testid'', ''primaryColumn'')] items, [(''html'', [])])"

definition itemAt :: "string \<Rightarrow> string \<Rightarrow> elem" where
  \<comment> \<open>the reference to an item of the primary region of a \<open>statusPage\<close>\<close>
  "itemAt handle text =
     (tweetItem handle text,
      [(''div'', [(''data-testid'', ''primaryColumn'')]), (''html'', [])])"

definition longformBlock :: "string \<Rightarrow> node" where
  \<comment> \<open>a content block of the structured read view\<close>
  "longformBlock text = leaf ''div'' [(''class'', ''longform-unstyled'')] text"

definition readViewPage :: "node list \<Rightarrow> document" where
  \<comment> \<open>a single-item page with a structured read view that holds the given blocks\<close>
  "readViewPage blocks =
     \<lparr>pathname = ''/alice/status/123'', doc_title = [],
      root = box ''html'' []
               [box ''div'' [(''data-testid'', ''primaryColumn'')]
                  [box ''div'' [(''data-testid'', ''twitterArticleReadView'')] blocks]]\<rparr>"

definition repeatedBlockPage :: document where
  \<comment> \<open>a structured read view with the same block twice\<close>
  "repeatedBlockPage = readViewPage [longformBlock ''Hello'', longformBlock ''Hello'']"

definition counterPage :: document where
  \<comment> \<open>an item whose text is a bare engagement counter\<close>
  "counterPage = statusPage [] [tweetItem ''alice'' ''1.2K'']"



definition authoredPage :: document where
  \<comment> \<open>one item with the display name of its author\<close>
  "authoredPage =
     statusPage []
       [box ''article'' [(''data-testid'', ''tweet'')]
          [box ''div'' [(''data-testid'', ''User-Name'')]
             [box ''span'' [] [leaf ''span'' [] ''Alice'']],
           leaf ''div'' [(''data-testid'', ''tweetText'')] ''Good morning'']]"




definition articlePage :: document where
  \<comment> \<open>an article path with an \<open>article\<close> element: a heading, a paragraph twice, a label\<close>
  "articlePage =
     \<lparr>pathname = ''/alice/article/9'', doc_title = [],
      root = box ''html'' []
               [box ''article'' []
                  [leaf ''h1'' [] ''On reading'',
                   leaf ''p'' [] ''Reading aloud is an old habit.'',
                   leaf ''p'' [] ''Reading aloud is an old habit.'',
                   leaf ''p'' [] ''Show more'']]\<rparr>"

definition quoteItems :: "node list" where
  \<comment> \<open>an item, a quoted item, the first item again, and a short reply\<close>
  "quoteItems =
     [tweetItem ''alice'' ''Hello world, this is a short test post.'',
      box ''div'' [(''data-testid'', ''quoteTweet'')]
        [tweetItem ''bob'' ''A quoted post that nobody asked to hear.''],
      tweetItem ''alice'' ''Hello world, this is a short test post.'',
      tweetItem ''carol'' ''Nice!'']"

definition quotePage :: document where
  "quotePage = statusPage [] quoteItems"


definition scenarioPage :: document where
  \<comment> \<open>the end-to-end scenario: a main item of 39 characters by \<open>alice\<close>, an item of
      500 characters by \<open>bob\<close>, a second item of 380 characters by \<open>alice\<close>\<close>
  "scenarioPage =
     statusPage []
       [tweetItem ''alice'' ''Hello world, this is a short test post.'',
        tweetItem ''bob'' (replicate 500 (CHR ''b'')),
        tweetItem ''alice'' (replicate 380 (CHR ''c''))]"




definition usedMemory :: memory where
  \<comment> \<open>a memory in which every variable holds something\<close>
  "usedMemory =
     \<lparr>var_authorTweetCount = 7, var_totalAuthorContent = 900,
      var_content = \<lparr>title = ''Old'', author = ''Nobody'', body = ''Old'',
                     paragraphs = [''Old'']\<rparr>,
      var_articleSeenText = {''Good morning''},
      var_statusParagraphs = [''Old''],
      var_threadParagraphs = [''Old''],
      var_threadSeenText = {''Good morning''},
      var_fallbackContent = \<lparr>title = ''Old'', author = ''Nobody'', body = ''Old'',
                             paragraphs = [''Old'']\<rparr>,
      var_fallbackSeenText = {''Good morning''},
      var_text = ''Old'',
      var_parts = [''Old''],
      var_console = [LongSingleTweet 300]\<rparr>"

section \<open>Basic facts\<close>

lemma join_nonempty: "xs \<noteq> [] \<Longrightarrow> hd xs \<noteq> [] \<Longrightarrow> join sep xs \<noteq> []"
  by (induction sep xs rule: join.induct) auto

lemma dropWhile_id: "xs = [] \<or> \<not> P (hd xs) \<Longrightarrow> dropWhile P xs = xs"
  by (cases xs) auto

lemma dropWhile_hd: "dropWhile P xs \<noteq> [] \<Longrightarrow> \<not> P (hd (dropWhile P xs))"
  by (simp add: hd_dropWhile)

lemma trim_split: "\<exists>v. dropWhile isWS s = trim s @ v"
proof -
  let ?t = "dropWhile isWS s"
  have "rev ?t = takeWhile isWS (rev ?t) @ dropWhile isWS (rev ?t)" by simp
  then have "rev (rev ?t) = rev (takeWhile isWS (rev ?t) @ dropWhile isWS (rev ?t))" by simp
  then have "?t = rev (dropWhile isWS (rev ?t)) @ rev (takeWhile isWS (rev ?t))"
    by (simp only: rev_rev_ident rev_append)
  then show ?thesis unfolding trim_def by blast
qed

lemma trim_hd: "trim s \<noteq> [] \<Longrightarrow> \<not> isWS (hd (trim s))"
proof -
  assume ne: "trim s \<noteq> []"
  obtain v where v: "dropWhile isWS s = trim s @ v" using trim_split by blast
  then have "dropWhile isWS s \<noteq> []" using ne by auto
  then have "\<not> isWS (hd (dropWhile isWS s))" by (rule dropWhile_hd)
  then show ?thesis using v ne by simp
qed

lemma trim_last: "trim s \<noteq> [] \<Longrightarrow> \<not> isWS (last (trim s))"
proof -
  assume ne: "trim s \<noteq> []"
  then have "dropWhile isWS (rev (dropWhile isWS s)) \<noteq> []" by (simp add: trim_def)
  then have "\<not> isWS (hd (dropWhile isWS (rev (dropWhile isWS s))))" by (rule dropWhile_hd)
  then show ?thesis using ne by (simp add: trim_def last_rev)
qed

lemma trim_id: "s = [] \<or> (\<not> isWS (hd s) \<and> \<not> isWS (last s)) \<Longrightarrow> trim s = s"
  by (cases "s = []") (auto simp: trim_def dropWhile_id hd_rev)

lemma trim_idem: "trim (trim s) = trim s"
  by (rule trim_id) (use trim_hd trim_last in blast)

lemma cleanText_trimmed: "trim (cleanText s) = cleanText s"
  by (simp add: cleanText_def trim_idem)

lemma firstOccurrences_distinct: "distinct (firstOccurrences xs)"
  by (simp add: firstOccurrences_def)

lemma firstOccurrences_set: "set (firstOccurrences xs) = set xs"
  by (simp add: firstOccurrences_def)

lemma remdups_later: "x \<in> set bs \<Longrightarrow> remdups (as @ x # bs) = remdups (as @ bs)"
  by (induction as) auto

lemma firstOccurrences_seen: "x \<in> set ps \<Longrightarrow> firstOccurrences (ps @ x # xs) = firstOccurrences (ps @ xs)"
  by (simp add: firstOccurrences_def remdups_later)

lemma firstOccurrences_id: "distinct ps \<Longrightarrow> firstOccurrences ps = ps"
  by (simp add: firstOccurrences_def distinct_remdups_id)

lemma thread_fold:
  "fst st = set (snd st) \<Longrightarrow> distinct (snd st) \<Longrightarrow>
   snd (fold thread_text_step es st) = firstOccurrences (snd st @ threadCandidates es)"
proof (induction es arbitrary: st)
  case Nil
  then show ?case by (simp add: threadCandidates_def firstOccurrences_id)
next
  case (Cons e es)
  let ?t = "trim (elem_innerText e)"
  show ?case
  proof (cases "closest (testid ''quoteTweet'') e = None \<and> ?t \<noteq> []")
    case False
    then have "thread_text_step e st = st" "threadCandidates (e # es) = threadCandidates es"
      by (auto simp: thread_text_step_def threadCandidates_def Let_def)
    then show ?thesis using Cons by simp
  next
    case True
    then have cand: "threadCandidates (e # es) = ?t # threadCandidates es"
      by (simp add: threadCandidates_def)
    show ?thesis
    proof (cases "?t \<in> fst st")
      case True
      then have "thread_text_step e st = st" by (simp add: thread_text_step_def Let_def)
      moreover have "?t \<in> set (snd st)" using True Cons.prems by simp
      ultimately show ?thesis using Cons cand by (simp add: firstOccurrences_seen)
    next
      case False
      then have step: "thread_text_step e st = push_new ?t st"
        using True by (simp add: thread_text_step_def Let_def)
      have "fst (push_new ?t st) = set (snd (push_new ?t st))"
        "distinct (snd (push_new ?t st))"
        using False Cons.prems by (auto simp: push_new_def)
      then have "snd (fold thread_text_step es (push_new ?t st))
                 = firstOccurrences (snd (push_new ?t st) @ threadCandidates es)"
        by (rule Cons.IH)
      then show ?thesis using step cand by (simp add: push_new_def)
    qed
  qed
qed

lemma collect_fold:
  assumes step: "\<And>e st. f e st = st \<or> (\<exists>t. t \<notin> fst st \<and> Q e t \<and> f e st = push_new t st)"
  shows "fst st = set (snd st) \<Longrightarrow> distinct (snd st) \<Longrightarrow>
         fst (fold f es st) = set (snd (fold f es st)) \<and> distinct (snd (fold f es st))
         \<and> (\<forall>t \<in> set (snd (fold f es st)). t \<in> set (snd st) \<or> (\<exists>e \<in> set es. Q e t))"
proof (induction es arbitrary: st)
  case Nil
  then show ?case by simp
next
  case (Cons e es)
  let ?st = "f e st"
  have one: "fst ?st = set (snd ?st) \<and> distinct (snd ?st)
        \<and> (\<forall>t \<in> set (snd ?st). t \<in> set (snd st) \<or> Q e t)"
  proof (cases "f e st = st")
    case True
    then show ?thesis using Cons.prems by simp
  next
    case False
    then obtain t where t: "t \<notin> fst st" "Q e t" "f e st = push_new t st"
      using step[of e st] by blast
    then show ?thesis using Cons.prems by (simp add: push_new_def)
  qed
  then have ih: "fst (fold f es ?st) = set (snd (fold f es ?st))
       \<and> distinct (snd (fold f es ?st))
       \<and> (\<forall>t \<in> set (snd (fold f es ?st)). t \<in> set (snd ?st) \<or> (\<exists>e \<in> set es. Q e t))"
    using Cons.IH[of ?st] by blast
  have "\<forall>t \<in> set (snd (fold f es ?st)). t \<in> set (snd st) \<or> (\<exists>e \<in> set (e # es). Q e t)"
  proof
    fix t assume "t \<in> set (snd (fold f es ?st))"
    then have "t \<in> set (snd ?st) \<or> (\<exists>e \<in> set es. Q e t)" using ih by blast
    then show "t \<in> set (snd st) \<or> (\<exists>e \<in> set (e # es). Q e t)" using one by auto
  qed
  then show ?case using ih by simp
qed

lemma finish_fields:
  "paragraphs (finish c ps) = ps" "author (finish c ps) = author c"
  "body (finish c ps) = join blankLine ps"
  by (auto simp: finish_def Let_def split: list.splits)

lemma extractThreadContent_author: "author (extractThreadContent d c) = author c"
  by (simp add: extractThreadContent_def finish_fields split: option.splits)

lemma extractStatusContent_author: "author (extractStatusContent d c) = extractAuthor d"
  by (simp add: extractStatusContent_def Let_def finish_fields extractThreadContent_author
      split: option.splits)

lemma extractArticleContent_author: "author (extractArticleContent d c) = extractAuthor d"
  by (simp add: extractArticleContent_def Let_def extractStatusContent_author
      split: option.splits)

lemma extractContent_author: "author (extractContent d) = extractAuthor d"
  by (simp add: extractContent_def extractStatusContent_author extractArticleContent_author)

lemma extractFallbackContent_author: "author (extractFallbackContent d) = extractAuthor d"
  by (simp add: extractFallbackContent_def Let_def split: option.splits)

lemma threadCandidates_good: "p \<in> set (threadCandidates es) \<Longrightarrow> p \<noteq> [] \<and> trim p = p"
  by (auto simp: threadCandidates_def trim_idem)

lemma extractThreadContent_paragraphs:
  "paragraphs (extractThreadContent d c) =
     (case doc_querySelector (testid ''primaryColumn'') d of
        None \<Rightarrow> paragraphs c
      | Some primaryColumn \<Rightarrow>
          firstOccurrences (threadCandidates (querySelectorAll (testid ''tweetText'') primaryColumn)))"
  using thread_fold [of "({}, [])"]
  by (simp add: extractThreadContent_def finish_fields split: option.splits)

lemma append_fold:
  assumes step: "\<And>x ps. f x ps = ps \<or> (\<exists>t. R t \<and> f x ps = ps @ [t])"
  shows "p \<in> set (fold f xs ps) \<Longrightarrow> p \<in> set ps \<or> R p"
proof (induction xs arbitrary: ps)
  case Nil
  then show ?case by simp
next
  case (Cons x xs)
  then have "p \<in> set (f x ps) \<or> R p" by simp
  moreover have "p \<in> set (f x ps) \<Longrightarrow> p \<in> set ps \<or> R p"
    using step [of x ps] by auto
  ultimately show ?case by blast
qed

lemma readViewParagraphs_good:
  assumes "p \<in> set (readViewParagraphs rv)"
  shows "p \<noteq> [] \<and> trim p = p \<and> \<not> isButtonText p"
proof -
  let ?R = "\<lambda>t. t \<noteq> [] \<and> trim t = t \<and> \<not> isButtonText t"
  have a: "\<And>xs ps. p \<in> set (fold longform_step xs ps) \<Longrightarrow> p \<in> set ps \<or> ?R p"
    by (rule append_fold [where R = ?R]) (auto simp: longform_step_def trim_idem Let_def)
  have b: "\<And>xs ps. p \<in> set (fold line_step xs ps) \<Longrightarrow> p \<in> set ps \<or> ?R p"
    by (rule append_fold [where R = ?R]) (auto simp: line_step_def trim_idem Let_def)
  show ?thesis
    using assms a [of _ "[]"] b [of _ "[]"]
    by (auto simp: readViewParagraphs_def Let_def split: if_splits)
qed

lemma article_fold:
  "distinct (snd (fold article_step es ({}, [])))
   \<and> (\<forall>t \<in> set (snd (fold article_step es ({}, []))). \<exists>e \<in> set es. articleKept e t)"
proof -
  have "\<And>e st. article_step e st = st
          \<or> (\<exists>t. t \<notin> fst st \<and> articleKept e t \<and> article_step e st = push_new t st)"
    by (auto simp: article_step_def Let_def articleKept_def)
  from collect_fold [of article_step articleKept "({}, [])" es, OF this]
  show ?thesis by simp
qed

lemma fallback_fold:
  "fst st = set (snd st) \<Longrightarrow> distinct (snd st) \<Longrightarrow>
   fst (fold (fallback_step n) es st) = set (snd (fold (fallback_step n) es st))
   \<and> distinct (snd (fold (fallback_step n) es st))
   \<and> (\<forall>t \<in> set (snd (fold (fallback_step n) es st)).
         t \<in> set (snd st) \<or> (\<exists>e \<in> set es. fallbackKept n e t))"
proof -
  have "\<And>e st. fallback_step n e st = st
          \<or> (\<exists>t. t \<notin> fst st \<and> fallbackKept n e t \<and> fallback_step n e st = push_new t st)"
    by (auto simp: fallback_step_def Let_def fallbackKept_def)
  from collect_fold [of "fallback_step n" "fallbackKept n" st es, OF this]
  show "fst st = set (snd st) \<Longrightarrow> distinct (snd st) \<Longrightarrow> ?thesis" by simp
qed

lemma extractTextFromElement_trimmed: "trim (extractTextFromElement e) = extractTextFromElement e"
  by (cases e rule: extractTextFromElement.cases) (simp_all add: cleanText_trimmed)

lemma fallbackParagraphs_good:
  "distinct (fallbackParagraphs pc)
   \<and> (\<forall>t \<in> set (fallbackParagraphs pc).
        (\<exists>e \<in> set (querySelectorAll (testid ''tweetText'') pc). fallbackKept 20 e t)
        \<or> (\<exists>e \<in> set (querySelectorAll [Compound [Tag ''div'', HasAttr ''lang'']] pc).
              fallbackKept 30 e t))"
proof -
  define st where "st = fold (fallback_step 20) (querySelectorAll (testid ''tweetText'') pc)
                          ({}, [])"
  define st2 where "st2 = fold (fallback_step 30)
                (querySelectorAll [Compound [Tag ''div'', HasAttr ''lang'']] pc) st"
  have one: "fst st = set (snd st) \<and> distinct (snd st)
     \<and> (\<forall>t \<in> set (snd st).
           \<exists>e \<in> set (querySelectorAll (testid ''tweetText'') pc). fallbackKept 20 e t)"
    using fallback_fold [of "({}, [])" 20 "querySelectorAll (testid ''tweetText'') pc"]
    unfolding st_def by simp
  have two: "distinct (snd st2)
     \<and> (\<forall>t \<in> set (snd st2). t \<in> set (snd st)
          \<or> (\<exists>e \<in> set (querySelectorAll [Compound [Tag ''div'', HasAttr ''lang'']] pc).
                fallbackKept 30 e t))"
    using fallback_fold [of st 30 "querySelectorAll [Compound [Tag ''div'', HasAttr ''lang'']] pc"]
      one unfolding st2_def by blast
  have eq: "fallbackParagraphs pc = (if snd st = [] then snd st2 else snd st)"
    by (simp add: fallbackParagraphs_def Let_def st_def st2_def)
  show ?thesis
  proof (cases "snd st = []")
    case True
    then show ?thesis using two eq by simp
  next
    case False
    then show ?thesis using one eq by simp
  qed
qed

lemma fallbackKept_good: "fallbackKept n e t \<Longrightarrow> t \<noteq> [] \<and> trim t = t"
  by (auto simp: fallbackKept_def extractTextFromElement_trimmed)

lemma articleKept_good: "articleKept e t \<Longrightarrow> t \<noteq> [] \<and> trim t = t"
  by (auto simp: articleKept_def cleanText_trimmed)

lemma extractFallbackContent_paragraphs:
  "paragraphs (extractFallbackContent d) =
     (case or_else (doc_querySelector (testid ''primaryColumn'') d)
                   (doc_querySelector [Compound [Tag ''main'']] d) of
        None \<Rightarrow> []
      | Some primaryColumn \<Rightarrow> fallbackParagraphs primaryColumn)"
  by (simp add: extractFallbackContent_def Let_def emptyContent_def split: option.splits)

lemma fallbackParagraphs_trimmed:
  "p \<in> set (fallbackParagraphs pc) \<Longrightarrow> p \<noteq> [] \<and> trim p = p"
  using fallbackParagraphs_good [of pc] fallbackKept_good by blast

lemma extractFallbackContent_good:
  "p \<in> set (paragraphs (extractFallbackContent d)) \<Longrightarrow> p \<noteq> [] \<and> trim p = p"
  using fallbackParagraphs_trimmed
  by (auto simp: extractFallbackContent_paragraphs split: option.splits)

lemma extractFallbackContent_distinct: "distinct (paragraphs (extractFallbackContent d))"
  using fallbackParagraphs_good
  by (auto simp: extractFallbackContent_paragraphs split: option.splits)

lemma extractStatusContent_good:
  "paragraphs c = [] \<Longrightarrow> p \<in> set (paragraphs (extractStatusContent d c)) \<Longrightarrow> p \<noteq> [] \<and> trim p = p"
  using readViewParagraphs_good threadCandidates_good
  by (auto simp: extractStatusContent_def Let_def finish_fields extractThreadContent_paragraphs
      firstOccurrences_set split: option.splits if_splits)

lemma extractArticleContent_paragraphs:
  "articleElement d = Some container \<Longrightarrow>
   paragraphs (extractArticleContent d c) =
     snd (fold article_step (querySelectorAll
            [Compound [Tag ''p''], Compound [AttrEq ''data-testid'' ''tweetText''],
             Compound [Tag ''div'', AttrEqI ''dir'' ''auto'', HasAttr ''lang'']] container)
          ({}, []))"
  by (simp add: extractArticleContent_def Let_def)

lemma extractArticleContent_good:
  "paragraphs c = [] \<Longrightarrow> p \<in> set (paragraphs (extractArticleContent d c)) \<Longrightarrow> p \<noteq> [] \<and> trim p = p"
proof (cases "articleElement d")
  case None
  assume "paragraphs c = []" "p \<in> set (paragraphs (extractArticleContent d c))"
  then show ?thesis using None extractStatusContent_good [of c p d]
    by (simp add: extractArticleContent_def)
next
  case (Some container)
  assume "p \<in> set (paragraphs (extractArticleContent d c))"
  then show ?thesis
    unfolding extractArticleContent_paragraphs [OF Some]
    using article_fold articleKept_good by blast
qed

lemma extractContent_good:
  "p \<in> set (paragraphs (extractContent d)) \<Longrightarrow> p \<noteq> [] \<and> trim p = p"
  using extractArticleContent_good [of emptyContent p d] extractStatusContent_good [of emptyContent p d]
  by (auto simp: extractContent_def emptyContent_def split: if_splits)

section \<open>The matcher decides the language of a pattern\<close>

lemma conc_empty [simp]: "conc {} B = {}" "conc A {} = {}"
  by (auto simp: conc_def)

lemma conc_unit [simp]: "conc {[]} B = B"
  by (auto simp: conc_def)

lemma nullable_lang: "nullable r \<longleftrightarrow> [] \<in> lang ci r"
  by (induction r) (auto simp: conc_def intro: star.star_empty)

lemma lang_seq: "lang ci (seq r s) = conc (lang ci r) (lang ci s)"
  by (cases "(r, s)" rule: seq.cases) simp_all

lemma lang_summands: "(\<Union>x \<in> set (summands r). lang ci x) = lang ci r"
  by (induction r rule: summands.induct) auto

lemma lang_add_summand: "lang ci (add_summand x r) = lang ci r \<union> lang ci x"
  using lang_summands [of ci r] by (auto simp: add_summand_def)

lemma lang_fold_add:
  "lang ci (fold add_summand xs r) = lang ci r \<union> (\<Union>x \<in> set xs. lang ci x)"
  by (induction xs arbitrary: r) (auto simp: lang_add_summand)

lemma lang_alt: "lang ci (alt r s) = lang ci r \<union> lang ci s"
  by (simp add: alt_def lang_fold_add lang_summands)

lemma left_quotient_conc:
  "{w. c # w \<in> conc A B}
     = conc {w. c # w \<in> A} B \<union> (if [] \<in> A then {w. c # w \<in> B} else {})"
proof (intro set_eqI iffI)
  fix w assume "w \<in> {w. c # w \<in> conc A B}"
  then obtain u v where uv: "c # w = u @ v" "u \<in> A" "v \<in> B" by (auto simp: conc_def)
  show "w \<in> conc {w. c # w \<in> A} B \<union> (if [] \<in> A then {w. c # w \<in> B} else {})"
  proof (cases u)
    case Nil
    then show ?thesis using uv by auto
  next
    case (Cons a u')
    then have "a = c" "w = u' @ v" using uv(1) by auto
    then show ?thesis using uv Cons by (auto simp: conc_def)
  qed
next
  fix w assume "w \<in> conc {w. c # w \<in> A} B \<union> (if [] \<in> A then {w. c # w \<in> B} else {})"
  then consider u v where "w = u @ v" "c # u \<in> A" "v \<in> B" | "[] \<in> A" "c # w \<in> B"
    by (auto simp: conc_def split: if_splits)
  then show "w \<in> {w. c # w \<in> conc A B}"
  proof cases
    case 1
    then have "c # w = (c # u) @ v" by simp
    then show ?thesis using 1 unfolding conc_def by blast
  next
    case 2
    then have "c # w = [] @ (c # w)" by simp
    then show ?thesis using 2 unfolding conc_def by blast
  qed
qed

lemma star_cons:
  "w \<in> star A \<Longrightarrow> w = c # x \<Longrightarrow> \<exists>u v. x = u @ v \<and> c # u \<in> A \<and> v \<in> star A"
proof (induction arbitrary: x rule: star.induct)
  case star_empty
  then show ?case by simp
next
  case (star_step u v)
  show ?case
  proof (cases u)
    case Nil
    then show ?thesis using star_step by simp
  next
    case (Cons a u')
    then have "a = c" "x = u' @ v" using star_step.prems by auto
    then show ?thesis using star_step.hyps Cons by blast
  qed
qed

lemma left_quotient_star: "{w. c # w \<in> star A} = conc {w. c # w \<in> A} (star A)"
proof (intro set_eqI iffI)
  fix w assume "w \<in> {w. c # w \<in> star A}"
  then show "w \<in> conc {w. c # w \<in> A} (star A)"
    using star_cons [of "c # w" A c w] by (auto simp: conc_def)
next
  fix w assume "w \<in> conc {w. c # w \<in> A} (star A)"
  then obtain u v where "w = u @ v" "c # u \<in> A" "v \<in> star A" by (auto simp: conc_def)
  then show "w \<in> {w. c # w \<in> star A}"
    using star.star_step [of "c # u" A v] by simp
qed

lemma lang_deriv: "lang ci (deriv ci c r) = {w. c # w \<in> lang ci r}"
proof (induction r)
  case (Seq r s)
  then show ?case
    by (simp add: lang_alt lang_seq left_quotient_conc nullable_lang [of r ci])
next
  case (Star r)
  then show ?case by (simp add: lang_seq left_quotient_star)
qed (auto simp: lang_alt)

lemma rx_full_lang: "rx_full ci r s \<longleftrightarrow> s \<in> lang ci r"
  by (induction s arbitrary: r) (simp_all add: nullable_lang lang_deriv)

section \<open>Path-only decisions\<close>

text \<open>
  Claim C5. A path that contains \<open>/article/\<close> or \<open>/i/articles/\<close> makes \<open>isArticlePage\<close>
  true whatever the element tree is, also a tree with no primary region; a path that is
  neither such a path nor a \<open>/status/<digits>\<close> path makes it false whatever the tree is.
  In both cases nothing is written to the console.
\<close>

theorem path_only_decisions:
  "(isExplicitArticleUrl (pathname d) \<longrightarrow>
      (\<forall>r t. isArticlePage (d\<lparr>root := r, doc_title := t\<rparr>)
           \<and> isArticlePage_run (d\<lparr>root := r, doc_title := t\<rparr>) = (True, [])))
   \<and> (\<not> isExplicitArticleUrl (pathname d) \<and> \<not> isStatusUrl (pathname d) \<longrightarrow>
      (\<forall>r t. \<not> isArticlePage (d\<lparr>root := r, doc_title := t\<rparr>)
           \<and> isArticlePage_run (d\<lparr>root := r, doc_title := t\<rparr>) = (False, [])))"
  by (simp add: isArticlePage_def isArticlePage_run_def)

lemma bareArticlePage_path: "isExplicitArticleUrl (pathname bareArticlePage)"
  unfolding bareArticlePage_def by code_simp

lemma feedPage_path:
  "\<not> isExplicitArticleUrl (pathname feedPage) \<and> \<not> isStatusUrl (pathname feedPage)"
  unfolding feedPage_def statusPage_def by code_simp

theorem path_only_decisions_witness:
  "isArticlePage bareArticlePage \<and> \<not> isArticlePage feedPage"
proof -
  have "isArticlePage (bareArticlePage\<lparr>root := root bareArticlePage,
          doc_title := doc_title bareArticlePage\<rparr>)"
    using path_only_decisions [of bareArticlePage] bareArticlePage_path by blast
  moreover have "\<not> isArticlePage (feedPage\<lparr>root := root feedPage,
          doc_title := doc_title feedPage\<rparr>)"
    using path_only_decisions [of feedPage] feedPage_path by blast
  ultimately show ?thesis by simp
qed

section \<open>Final assembly\<close>

lemma getReadableText_cases:
  "getReadableText d =
     (if paragraphs (extractContent d) \<noteq> []
      then Some (join blankLine (authorLine d @ paragraphs (extractContent d)))
      else if paragraphs (extractFallbackContent d) \<noteq> []
      then Some (join blankLine (authorLine d @ paragraphs (extractFallbackContent d)))
      else None)"
  by (simp add: getReadableText_def withAuthor_def authorLine_def extractContent_author
      extractFallbackContent_author Let_def)

lemma authorLine_join: "ps \<noteq> [] \<Longrightarrow> hd ps \<noteq> [] \<Longrightarrow> join blankLine (authorLine d @ ps) \<noteq> []"
  by (rule join_nonempty) (auto simp: authorLine_def)







text \<open>
  Claim C10. \<open>getReadableText\<close> never returns the empty string: a result that is not
  null is the join of the author line, if any, and the paragraphs of \<open>extractContent\<close> or
  of the aggressive fallback; there is at least one paragraph, and every paragraph is
  trimmed and not empty.
\<close>

theorem never_empty_string:
  assumes "getReadableText d = Some s"
  shows "s \<noteq> []
     \<and> (\<exists>ps. (ps = paragraphs (extractContent d) \<or> ps = paragraphs (extractFallbackContent d))
           \<and> ps \<noteq> [] \<and> (\<forall>p \<in> set ps. p \<noteq> [] \<and> trim p = p)
           \<and> s = join blankLine (authorLine d @ ps))"
proof (cases "paragraphs (extractContent d) \<noteq> []")
  case True
  let ?ps = "paragraphs (extractContent d)"
  have s: "s = join blankLine (authorLine d @ ?ps)"
    using assms True by (simp add: getReadableText_cases)
  have good: "\<forall>p \<in> set ?ps. p \<noteq> [] \<and> trim p = p"
    using extractContent_good by blast
  then have "hd ?ps \<noteq> []" using True by (cases ?ps) auto
  then have "s \<noteq> []" using s True authorLine_join [of ?ps d] by simp
  moreover have "\<exists>ps. (ps = paragraphs (extractContent d)
                    \<or> ps = paragraphs (extractFallbackContent d))
           \<and> ps \<noteq> [] \<and> (\<forall>p \<in> set ps. p \<noteq> [] \<and> trim p = p)
           \<and> s = join blankLine (authorLine d @ ps)"
    using s True good by (intro exI [of _ ?ps]) simp
  ultimately show ?thesis by simp
next
  case False
  let ?ps = "paragraphs (extractFallbackContent d)"
  have ne: "?ps \<noteq> []" using assms False by (auto simp: getReadableText_cases split: if_splits)
  have s: "s = join blankLine (authorLine d @ ?ps)"
    using assms False ne by (simp add: getReadableText_cases)
  have good: "\<forall>p \<in> set ?ps. p \<noteq> [] \<and> trim p = p"
    using extractFallbackContent_good by blast
  then have "hd ?ps \<noteq> []" using ne by (cases ?ps) auto
  then have "s \<noteq> []" using s ne authorLine_join [of ?ps d] by simp
  moreover have "\<exists>ps. (ps = paragraphs (extractContent d)
                    \<or> ps = paragraphs (extractFallbackContent d))
           \<and> ps \<noteq> [] \<and> (\<forall>p \<in> set ps. p \<noteq> [] \<and> trim p = p)
           \<and> s = join blankLine (authorLine d @ ps)"
    using s ne good by (intro exI [of _ ?ps]) simp
  ultimately show ?thesis by simp
qed

lemma authoredPage_text:
  "getReadableText authoredPage = Some (''Article by Alice'' @ blankLine @ ''Good morning'')"
  by code_simp

theorem never_empty_string_witness:
  "getReadableText authoredPage = Some (''Article by Alice'' @ blankLine @ ''Good morning'')
   \<and> ''Article by Alice'' @ blankLine @ ''Good morning'' \<noteq> []
   \<and> (\<exists>ps. ps \<noteq> [] \<and> ''Article by Alice'' @ blankLine @ ''Good morning''
               = join blankLine (authorLine authoredPage @ ps))"
proof -
  from never_empty_string [OF authoredPage_text]
  have "''Article by Alice'' @ blankLine @ ''Good morning'' \<noteq> []
     \<and> (\<exists>ps. ps \<noteq> [] \<and> ''Article by Alice'' @ blankLine @ ''Good morning''
               = join blankLine (authorLine authoredPage @ ps))"
    by (elim conjE exE) (intro conjI exI, assumption+)
  then show ?thesis using authoredPage_text by simp
qed

section \<open>Repeated calls\<close>

lemma fold_get:
  assumes "\<And>e m. get (stepm e m) = step e (get m)"
  shows "get (fold stepm es m) = fold step es (get m)"
  by (induction es arbitrary: m) (simp_all add: assms)

lemma fold_keeps:
  assumes "\<And>e m. get (stepm e m) = get m"
  shows "get (fold stepm es m) = get m"
  by (induction es arbitrary: m) (simp_all add: assms)

lemma count_call_step:
  "(var_authorTweetCount (count_call h e m), var_totalAuthorContent (count_call h e m))
     = thread_step h e (var_authorTweetCount m, var_totalAuthorContent m)"
  "var_console (count_call h e m) = var_console m"
  by (simp_all add: count_call_def thread_step_def tweetTextLength_def Let_def
      split: option.splits)

lemma count_call_fold:
  "(var_authorTweetCount (fold (count_call h) es m),
    var_totalAuthorContent (fold (count_call h) es m))
     = fold (thread_step h) es (var_authorTweetCount m, var_totalAuthorContent m)"
  "var_console (fold (count_call h) es m) = var_console m"
proof -
  show "(var_authorTweetCount (fold (count_call h) es m),
         var_totalAuthorContent (fold (count_call h) es m))
     = fold (thread_step h) es (var_authorTweetCount m, var_totalAuthorContent m)"
    by (rule fold_get [where get = "\<lambda>m. (var_authorTweetCount m, var_totalAuthorContent m)"])
       (rule count_call_step(1))
  show "var_console (fold (count_call h) es m) = var_console m"
    by (rule fold_keeps) (rule count_call_step(2))
qed

lemma threadCheck_call_run:
  "fst (threadCheck_call d pc m) = fst (threadCheck d pc)"
  "var_console (snd (threadCheck_call d pc m)) = var_console m @ snd (threadCheck d pc)"
proof -
  have counts: "var_authorTweetCount (fold (count_call h) es
                   (m\<lparr>var_authorTweetCount := 0, var_totalAuthorContent := 0\<rparr>))
                 = fst (fold (thread_step h) es (0, 0))"
       "var_totalAuthorContent (fold (count_call h) es
                   (m\<lparr>var_authorTweetCount := 0, var_totalAuthorContent := 0\<rparr>))
                 = snd (fold (thread_step h) es (0, 0))" for h es
    using count_call_fold(1)
      [of h es "m\<lparr>var_authorTweetCount := 0, var_totalAuthorContent := 0\<rparr>"]
    by (simp_all add: prod_eq_iff)
  show "fst (threadCheck_call d pc m) = fst (threadCheck d pc)"
    by (simp add: threadCheck_call_def threadCheck_def Let_def counts split: option.splits)
  show "var_console (snd (threadCheck_call d pc m)) = var_console m @ snd (threadCheck d pc)"
    by (simp add: threadCheck_call_def threadCheck_def Let_def counts console_log_def
        count_call_fold(2) split: option.splits)
qed

lemma mainTweetCheck_call_run:
  "fst (mainTweetCheck_call d pc m) = fst (mainTweetCheck d pc)"
  "var_console (snd (mainTweetCheck_call d pc m)) = var_console m @ snd (mainTweetCheck d pc)"
  by (simp_all add: mainTweetCheck_call_def mainTweetCheck_def Let_def console_log_def
      threadCheck_call_run split: option.splits)

lemma isArticlePage_call_run:
  "fst (isArticlePage_call d m) = fst (isArticlePage_run d)"
  "var_console (snd (isArticlePage_call d m)) = var_console m @ snd (isArticlePage_run d)"
  by (simp_all add: isArticlePage_call_def isArticlePage_run_def mainTweetCheck_call_run
      split: option.splits)

lemma walk_call_text:
  "walk_call n m = m\<lparr>var_text := var_text m @ walk n\<rparr>"
proof (induction n arbitrary: m)
  case (Text s)
  show ?case by simp
next
  case (Element t a i cs)
  have folded: "fold walk_call ns m' = m'\<lparr>var_text := var_text m' @ concat (map walk ns)\<rparr>"
    if "set ns \<subseteq> set cs" for ns m'
    using that
  proof (induction ns arbitrary: m')
    case Nil
    show ?case by simp
  next
    case (Cons n ns)
    then show ?case using Element.IH [of n] by simp
  qed
  show ?case by (simp add: Let_def folded split: option.splits)
qed

lemma walk_call_fold:
  "fold walk_call ns m = m\<lparr>var_text := var_text m @ concat (map walk ns)\<rparr>"
  by (induction ns arbitrary: m) (simp_all add: walk_call_text)

lemma extractTextFromElement_call_text:
  "fst (extractTextFromElement_call e m) = extractTextFromElement e"
  "var_fallbackSeenText (snd (extractTextFromElement_call e m)) = var_fallbackSeenText m"
  "var_fallbackContent (snd (extractTextFromElement_call e m)) = var_fallbackContent m"
proof -
  obtain n anc where e: "e = (n, anc)" by (cases e)
  show "fst (extractTextFromElement_call e m) = extractTextFromElement e"
    unfolding e by (cases n) (simp_all add: Let_def walk_call_fold)
  show "var_fallbackSeenText (snd (extractTextFromElement_call e m)) = var_fallbackSeenText m"
    unfolding e by (cases n) (simp_all add: Let_def walk_call_fold)
  show "var_fallbackContent (snd (extractTextFromElement_call e m)) = var_fallbackContent m"
    unfolding e by (cases n) (simp_all add: Let_def walk_call_fold)
qed

lemma pushed_fold:
  assumes "\<And>e m. (seen (stepm e m), paragraphs (obj (stepm e m)))
                     = step e (seen m, paragraphs (obj m))"
      and "\<And>e m. \<exists>ps. obj (stepm e m) = (obj m)\<lparr>paragraphs := ps\<rparr>"
  shows "obj (fold stepm es m)
           = (obj m)\<lparr>paragraphs := snd (fold step es (seen m, paragraphs (obj m)))\<rparr>"
proof (induction es arbitrary: m)
  case Nil
  show ?case by simp
next
  case (Cons e es)
  obtain ps where ps: "obj (stepm e m) = (obj m)\<lparr>paragraphs := ps\<rparr>"
    using assms(2) by blast
  have "step e (seen m, paragraphs (obj m)) = (seen (stepm e m), ps)"
    using assms(1) [of e m] ps by simp
  then show ?case by (simp add: Cons.IH ps)
qed

lemma fallback_call_step:
  "(var_fallbackSeenText (fallback_call n e m),
    paragraphs (var_fallbackContent (fallback_call n e m)))
     = fallback_step n e (var_fallbackSeenText m, paragraphs (var_fallbackContent m))"
  "\<exists>ps. var_fallbackContent (fallback_call n e m)
          = (var_fallbackContent m)\<lparr>paragraphs := ps\<rparr>"
proof -
  show "(var_fallbackSeenText (fallback_call n e m),
    paragraphs (var_fallbackContent (fallback_call n e m)))
     = fallback_step n e (var_fallbackSeenText m, paragraphs (var_fallbackContent m))"
    by (simp add: fallback_call_def fallback_step_def push_new_def Let_def
        extractTextFromElement_call_text)
  have "var_fallbackContent (fallback_call n e m)
          = (var_fallbackContent m)\<lparr>paragraphs := paragraphs (var_fallbackContent m)\<rparr>
        \<or> var_fallbackContent (fallback_call n e m)
          = (var_fallbackContent m)\<lparr>paragraphs := paragraphs (var_fallbackContent m)
               @ [extractTextFromElement e]\<rparr>"
    by (simp add: fallback_call_def Let_def extractTextFromElement_call_text)
  then show "\<exists>ps. var_fallbackContent (fallback_call n e m)
          = (var_fallbackContent m)\<lparr>paragraphs := ps\<rparr>"
    by blast
qed

lemma fallback_call_fold:
  "var_fallbackContent (fold (fallback_call n) es m)
     = (var_fallbackContent m)\<lparr>paragraphs :=
          snd (fold (fallback_step n) es
                 (var_fallbackSeenText m, paragraphs (var_fallbackContent m)))\<rparr>"
  "var_fallbackSeenText (fold (fallback_call n) es m)
     = fst (fold (fallback_step n) es
              (var_fallbackSeenText m, paragraphs (var_fallbackContent m)))"
proof -
  show "var_fallbackContent (fold (fallback_call n) es m)
     = (var_fallbackContent m)\<lparr>paragraphs :=
          snd (fold (fallback_step n) es
                 (var_fallbackSeenText m, paragraphs (var_fallbackContent m)))\<rparr>"
    by (rule pushed_fold [where seen = var_fallbackSeenText]) (rule fallback_call_step)+
  have "(var_fallbackSeenText (fold (fallback_call n) es m),
         paragraphs (var_fallbackContent (fold (fallback_call n) es m)))
     = fold (fallback_step n) es
         (var_fallbackSeenText m, paragraphs (var_fallbackContent m))"
    by (rule fold_get
          [where get = "\<lambda>m. (var_fallbackSeenText m, paragraphs (var_fallbackContent m))"])
       (rule fallback_call_step(1))
  then show "var_fallbackSeenText (fold (fallback_call n) es m)
     = fst (fold (fallback_step n) es
              (var_fallbackSeenText m, paragraphs (var_fallbackContent m)))"
    by (simp add: prod_eq_iff)
qed

lemma pair_with_Nil:
  "snd p = [] \<Longrightarrow> (fst p, []) = p"
  by (cases p) simp

lemma extractFallbackContent_call_value:
  "fst (extractFallbackContent_call d m) = extractFallbackContent d"
  by (simp add: extractFallbackContent_call_def extractFallbackContent_def
      fallbackParagraphs_def Let_def fallback_call_fold emptyContent_def pair_with_Nil
      split: option.splits)

lemma thread_text_call_step:
  "(var_threadSeenText (thread_text_call e m), var_threadParagraphs (thread_text_call e m))
     = thread_text_step e (var_threadSeenText m, var_threadParagraphs m)"
  "var_content (thread_text_call e m) = var_content m"
  by (simp_all add: thread_text_call_def thread_text_step_def push_new_def Let_def)

lemma thread_text_call_fold:
  "var_threadParagraphs (fold thread_text_call es m)
     = snd (fold thread_text_step es (var_threadSeenText m, var_threadParagraphs m))"
  "var_content (fold thread_text_call es m) = var_content m"
proof -
  have "(var_threadSeenText (fold thread_text_call es m),
         var_threadParagraphs (fold thread_text_call es m))
     = fold thread_text_step es (var_threadSeenText m, var_threadParagraphs m)"
    by (rule fold_get [where get = "\<lambda>m. (var_threadSeenText m, var_threadParagraphs m)"])
       (rule thread_text_call_step(1))
  then show "var_threadParagraphs (fold thread_text_call es m)
     = snd (fold thread_text_step es (var_threadSeenText m, var_threadParagraphs m))"
    by (simp add: prod_eq_iff)
  show "var_content (fold thread_text_call es m) = var_content m"
    by (rule fold_keeps) (rule thread_text_call_step(2))
qed

lemma extractThreadContent_call_value:
  "var_content (extractThreadContent_call d m) = extractThreadContent d (var_content m)"
  by (simp add: extractThreadContent_call_def extractThreadContent_def Let_def
      thread_text_call_fold split: option.splits)

lemma status_call_step:
  "var_statusParagraphs (longform_call e m) = longform_step e (var_statusParagraphs m)"
  "var_content (longform_call e m) = var_content m"
  "var_statusParagraphs (line_call l m) = line_step l (var_statusParagraphs m)"
  "var_content (line_call l m) = var_content m"
  by (simp_all add: longform_call_def longform_step_def line_call_def line_step_def Let_def)

lemma status_call_fold:
  "var_statusParagraphs (fold longform_call es m) = fold longform_step es (var_statusParagraphs m)"
  "var_content (fold longform_call es m) = var_content m"
  "var_statusParagraphs (fold line_call ls m) = fold line_step ls (var_statusParagraphs m)"
  "var_content (fold line_call ls m) = var_content m"
proof -
  show "var_statusParagraphs (fold longform_call es m)
          = fold longform_step es (var_statusParagraphs m)"
    by (rule fold_get) (rule status_call_step(1))
  show "var_content (fold longform_call es m) = var_content m"
    by (rule fold_keeps) (rule status_call_step(2))
  show "var_statusParagraphs (fold line_call ls m) = fold line_step ls (var_statusParagraphs m)"
    by (rule fold_get) (rule status_call_step(3))
  show "var_content (fold line_call ls m) = var_content m"
    by (rule fold_keeps) (rule status_call_step(4))
qed

lemma extractStatusContent_call_value:
  "var_content (extractStatusContent_call d m) = extractStatusContent d (var_content m)"
  by (simp add: extractStatusContent_call_def extractStatusContent_def
      readViewParagraphs_def Let_def status_call_fold extractThreadContent_call_value
      split: option.splits)

lemma article_call_step:
  "(var_articleSeenText (article_call e m), paragraphs (var_content (article_call e m)))
     = article_step e (var_articleSeenText m, paragraphs (var_content m))"
  "\<exists>ps. var_content (article_call e m) = (var_content m)\<lparr>paragraphs := ps\<rparr>"
proof -
  show "(var_articleSeenText (article_call e m), paragraphs (var_content (article_call e m)))
     = article_step e (var_articleSeenText m, paragraphs (var_content m))"
    by (simp add: article_call_def article_step_def push_new_def Let_def)
  have "var_content (article_call e m)
          = (var_content m)\<lparr>paragraphs := paragraphs (var_content m)\<rparr>
        \<or> var_content (article_call e m)
          = (var_content m)\<lparr>paragraphs := paragraphs (var_content m)
               @ [cleanText (elem_innerText e)]\<rparr>"
    by (simp add: article_call_def Let_def)
  then show "\<exists>ps. var_content (article_call e m) = (var_content m)\<lparr>paragraphs := ps\<rparr>"
    by blast
qed

lemma article_call_fold:
  "var_content (fold article_call es m)
     = (var_content m)\<lparr>paragraphs :=
          snd (fold article_step es (var_articleSeenText m, paragraphs (var_content m)))\<rparr>"
  by (rule pushed_fold [where seen = var_articleSeenText]) (rule article_call_step)+

lemma extractArticleContent_call_value:
  assumes "paragraphs (var_content m) = []"
  shows "var_content (extractArticleContent_call d m) = extractArticleContent d (var_content m)"
  using assms
  by (simp add: extractArticleContent_call_def extractArticleContent_def Let_def
      article_call_fold extractStatusContent_call_value split: option.splits)

lemma extractContent_call_value:
  "fst (extractContent_call d m) = extractContent d"
  by (simp add: extractContent_call_def extractContent_def Let_def
      extractArticleContent_call_value extractStatusContent_call_value emptyContent_def)

lemma parts_call_value:
  "fst (parts_call c m) = withAuthor c"
  by (simp add: parts_call_def withAuthor_def Let_def)

lemma getReadableText_call_value:
  "fst (getReadableText_call d m) = getReadableText d"
  by (simp add: getReadableText_call_def getReadableText_def Let_def
      extractContent_call_value extractFallbackContent_call_value parts_call_value)

text \<open>
  Claim C9. Whatever the calls before it have left in the variables of the module, a call
  of \<open>isArticlePage\<close> or of \<open>getReadableText\<close> on a document returns what the document
  alone determines: every variable is assigned before it is read, and the console is
  written and never read. So two calls on the same document return the same result,
  from any two memories, and a second call in the memory the first one leaves, of either
  function after either, returns what the first returned.
\<close>

theorem calls_repeatable:
  "fst (isArticlePage_call d m) = isArticlePage d
   \<and> fst (getReadableText_call d m) = getReadableText d
   \<and> fst (isArticlePage_call d m) = fst (isArticlePage_call d m')
   \<and> fst (getReadableText_call d m) = fst (getReadableText_call d m')
   \<and> fst (isArticlePage_call d (snd (isArticlePage_call d m))) = fst (isArticlePage_call d m)
   \<and> fst (getReadableText_call d (snd (getReadableText_call d m)))
       = fst (getReadableText_call d m)
   \<and> fst (getReadableText_call d (snd (isArticlePage_call d m)))
       = fst (getReadableText_call d m)
   \<and> fst (isArticlePage_call d (snd (getReadableText_call d m)))
       = fst (isArticlePage_call d m)
   \<and> var_console (snd (isArticlePage_call d m))
       = var_console m @ snd (isArticlePage_run d)"
  by (simp add: isArticlePage_call_run getReadableText_call_value isArticlePage_def)

lemma authoredPage_run: "isArticlePage_run authoredPage = (False, [NotEnoughContent 0 0])"
  by code_simp

theorem calls_repeatable_witness:
  "fst (isArticlePage_call authoredPage usedMemory) = False
   \<and> fst (getReadableText_call authoredPage usedMemory)
       = Some (''Article by Alice'' @ blankLine @ ''Good morning'')
   \<and> var_console (snd (isArticlePage_call authoredPage usedMemory))
       = [LongSingleTweet 300, NotEnoughContent 0 0]
   \<and> var_authorTweetCount usedMemory = 7
   \<and> var_totalAuthorContent usedMemory = 900
   \<and> ''Good morning'' \<in> var_threadSeenText usedMemory"
  using calls_repeatable [of authoredPage usedMemory usedMemory]
  by (simp add: isArticlePage_def authoredPage_run authoredPage_text usedMemory_def)

section \<open>The paragraphs of an extraction\<close>

lemma dedup_fold:
  assumes step: "\<And>e st. f e st
                   = (if ok e \<and> text e \<notin> fst st then push_new (text e) st else st)"
  shows "fst st = set (snd st) \<Longrightarrow> distinct (snd st) \<Longrightarrow>
         snd (fold f es st) = firstOccurrences (snd st @ map text (filter ok es))
         \<and> fst (fold f es st) = set (snd (fold f es st))"
proof (induction es arbitrary: st)
  case Nil
  then show ?case by (simp add: firstOccurrences_id)
next
  case (Cons e es)
  show ?case
  proof (cases "ok e")
    case False
    then have "f e st = st" by (simp add: step)
    then show ?thesis using Cons False by simp
  next
    case True
    show ?thesis
    proof (cases "text e \<in> fst st")
      case seen: True
      then have "f e st = st" by (simp add: step)
      moreover have "text e \<in> set (snd st)" using seen Cons.prems by simp
      ultimately show ?thesis using Cons True by (simp add: firstOccurrences_seen)
    next
      case False
      then have s: "f e st = push_new (text e) st" using True by (simp add: step)
      have "fst (push_new (text e) st) = set (snd (push_new (text e) st))"
        "distinct (snd (push_new (text e) st))"
        using False Cons.prems by (auto simp: push_new_def)
      then have "snd (fold f es (push_new (text e) st))
                   = firstOccurrences (snd (push_new (text e) st) @ map text (filter ok es))
                 \<and> fst (fold f es (push_new (text e) st))
                   = set (snd (fold f es (push_new (text e) st)))"
        by (rule Cons.IH)
      then show ?thesis using s True by (simp add: push_new_def)
    qed
  qed
qed

lemma passesUiFilter_iff: "passesUiFilter el t \<longleftrightarrow> \<not> isUIElement el t"
  by (auto simp: passesUiFilter_def isUIElement_def)

lemma article_fold_exact:
  "snd (fold article_step es ({}, [])) = firstOccurrences (articleCandidates es)"
proof -
  have "\<And>e st. article_step e st
      = (if (10 < length (cleanText (elem_innerText e))
             \<and> passesUiFilter e (cleanText (elem_innerText e)))
            \<and> cleanText (elem_innerText e) \<notin> fst st
         then push_new (cleanText (elem_innerText e)) st else st)"
    by (auto simp: article_step_def Let_def passesUiFilter_iff)
  from dedup_fold [of article_step _ "\<lambda>e. cleanText (elem_innerText e)" "({}, [])" es,
      OF this]
  show ?thesis by (simp add: articleCandidates_def)
qed

lemma fallback_fold_exact:
  assumes "fst st = set (snd st)" "distinct (snd st)"
  shows "snd (fold (fallback_step n) es st)
           = firstOccurrences (snd st @ fallbackCandidates n es)
         \<and> fst (fold (fallback_step n) es st) = set (snd (fold (fallback_step n) es st))"
proof -
  have "\<And>e st. fallback_step n e st
      = (if (closest (testid ''quoteTweet'') e = None
             \<and> n < length (extractTextFromElement e)
             \<and> passesUiFilter e (extractTextFromElement e))
            \<and> extractTextFromElement e \<notin> fst st
         then push_new (extractTextFromElement e) st else st)"
    by (auto simp: fallback_step_def Let_def passesUiFilter_iff)
  from dedup_fold [of "fallback_step n" _ extractTextFromElement st es, OF this assms]
  show ?thesis by (simp add: fallbackCandidates_def)
qed

lemma fallbackParagraphs_exact:
  "fallbackParagraphs pc =
     (if firstOccurrences (fallbackCandidates 20 (querySelectorAll (testid ''tweetText'') pc))
           \<noteq> []
      then firstOccurrences (fallbackCandidates 20 (querySelectorAll (testid ''tweetText'') pc))
      else firstOccurrences (fallbackCandidates 30
             (querySelectorAll [Compound [Tag ''div'', HasAttr ''lang'']] pc)))"
proof -
  define st where "st = fold (fallback_step 20) (querySelectorAll (testid ''tweetText'') pc)
                          ({}, [])"
  have one: "snd st = firstOccurrences
                (fallbackCandidates 20 (querySelectorAll (testid ''tweetText'') pc))
             \<and> fst st = set (snd st)"
    using fallback_fold_exact [of "({}, [])" 20 "querySelectorAll (testid ''tweetText'') pc"]
    unfolding st_def by simp
  have two: "snd st = [] \<Longrightarrow>
       snd (fold (fallback_step 30)
              (querySelectorAll [Compound [Tag ''div'', HasAttr ''lang'']] pc) st)
         = firstOccurrences (fallbackCandidates 30
             (querySelectorAll [Compound [Tag ''div'', HasAttr ''lang'']] pc))"
    using fallback_fold_exact
      [of st 30 "querySelectorAll [Compound [Tag ''div'', HasAttr ''lang'']] pc"] one
    by simp
  have eq: "fallbackParagraphs pc =
      (if snd st = []
       then snd (fold (fallback_step 30)
              (querySelectorAll [Compound [Tag ''div'', HasAttr ''lang'']] pc) st)
       else snd st)"
    by (simp add: fallbackParagraphs_def Let_def st_def)
  show ?thesis
  proof (cases "snd st = []")
    case True
    then show ?thesis using eq two one by simp
  next
    case False
    then show ?thesis using eq one by simp
  qed
qed

lemma longform_fold_exact: "fold longform_step es ps = ps @ structuredTexts es"
proof (induction es arbitrary: ps)
  case Nil
  then show ?case by (simp add: structuredTexts_def)
next
  case (Cons e es)
  have "longform_step e ps = ps @ structuredTexts [e]"
    by (auto simp: longform_step_def structuredTexts_def Let_def)
  moreover have "structuredTexts (e # es) = structuredTexts [e] @ structuredTexts es"
    by (simp add: structuredTexts_def)
  ultimately show ?case using Cons.IH [of "longform_step e ps"] by simp
qed

lemma line_fold_exact:
  "fold line_step ls ps = ps @ filter (\<lambda>t. t \<noteq> [] \<and> \<not> isButtonText t) (map trim ls)"
proof (induction ls arbitrary: ps)
  case Nil
  then show ?case by simp
next
  case (Cons l ls)
  have "line_step l ps = ps @ filter (\<lambda>t. t \<noteq> [] \<and> \<not> isButtonText t) (map trim [l])"
    by (auto simp: line_step_def Let_def)
  then show ?case using Cons.IH [of "line_step l ps"] by simp
qed

lemma readViewParagraphs_exact:
  "readViewParagraphs rv =
     (if structuredTexts (querySelectorAll longformSelector rv) \<noteq> []
      then structuredTexts (querySelectorAll longformSelector rv)
      else lineTexts (elem_innerText rv))"
proof -
  have "structuredTexts [] = []" by (simp add: structuredTexts_def)
  then show ?thesis
    using longform_fold_exact [of "querySelectorAll longformSelector rv" "[]"]
      line_fold_exact [of "split (CHR 0x0A) (elem_innerText rv)" "[]"]
    by (cases "querySelectorAll longformSelector rv = []")
       (simp_all add: readViewParagraphs_def Let_def lineTexts_def)
qed

lemma statusContent_paragraphs:
  "paragraphs c = [] \<Longrightarrow>
   paragraphs (extractStatusContent d c) =
     (case doc_querySelector (testid ''twitterArticleReadView'') d of
        Some rv \<Rightarrow>
          (if readViewParagraphs rv \<noteq> [] then readViewParagraphs rv
           else paragraphs (extractThreadContent d (c\<lparr>author := extractAuthor d\<rparr>)))
      | None \<Rightarrow> paragraphs (extractThreadContent d (c\<lparr>author := extractAuthor d\<rparr>)))"
  by (simp add: extractStatusContent_def Let_def finish_fields split: option.splits)

lemma extractContent_dispatch:
  "paragraphs (extractContent d) =
     (if usesArticlePath d
      then (case articleElement d of
              Some container \<Rightarrow>
                firstOccurrences (articleCandidates (querySelectorAll articleSelector container))
            | None \<Rightarrow> [])
      else (case doc_querySelector (testid ''twitterArticleReadView'') d of
              Some rv \<Rightarrow>
                (if readViewParagraphs rv \<noteq> [] then readViewParagraphs rv
                 else (case doc_querySelector (testid ''primaryColumn'') d of
                         Some pc \<Rightarrow> firstOccurrences
                           (threadCandidates (querySelectorAll (testid ''tweetText'') pc))
                       | None \<Rightarrow> []))
            | None \<Rightarrow>
                (case doc_querySelector (testid ''primaryColumn'') d of
                   Some pc \<Rightarrow> firstOccurrences
                     (threadCandidates (querySelectorAll (testid ''tweetText'') pc))
                 | None \<Rightarrow> [])))"
proof (cases "usesArticlePath d")
  case True
  then obtain container where c: "includes_str ''/article/'' (pathname d)"
    "articleElement d = Some container"
    by (auto simp: usesArticlePath_def split: if_splits option.splits)
  show ?thesis
    using True c extractArticleContent_paragraphs [OF c(2), of emptyContent]
    by (simp add: extractContent_def article_fold_exact articleSelector_def)
next
  case False
  have "paragraphs (extractContent d) = paragraphs (extractStatusContent d emptyContent)"
    using False
    by (auto simp: usesArticlePath_def extractContent_def extractArticleContent_def
        split: if_splits option.splits)
  then show ?thesis
    using False statusContent_paragraphs [of emptyContent d]
    by (simp add: emptyContent_def extractThreadContent_paragraphs split: option.splits)
qed

lemma extractFallbackContent_exact:
  "paragraphs (extractFallbackContent d) =
     (case fallbackRegion d of
        None \<Rightarrow> []
      | Some region \<Rightarrow>
          (if firstOccurrences
                (fallbackCandidates 20 (querySelectorAll (testid ''tweetText'') region)) \<noteq> []
           then firstOccurrences
                  (fallbackCandidates 20 (querySelectorAll (testid ''tweetText'') region))
           else firstOccurrences (fallbackCandidates 30
                  (querySelectorAll [Compound [Tag ''div'', HasAttr ''lang'']] region))))"
  by (simp add: extractFallbackContent_paragraphs fallbackRegion_def fallbackParagraphs_exact
      split: option.splits)

lemma strategy_equations:
  "paragraphs (extractContent d) =
     (if usesArticlePath d
      then (case articleElement d of Some c \<Rightarrow> articleParagraphs c | None \<Rightarrow> [])
      else (case doc_querySelector (testid ''twitterArticleReadView'') d of
              Some rv \<Rightarrow>
                (if structuredParagraphs rv \<noteq> [] then structuredParagraphs rv
                 else threadParagraphs d)
            | None \<Rightarrow> threadParagraphs d))"
  "paragraphs (extractFallbackContent d) =
     (case fallbackRegion d of None \<Rightarrow> [] | Some r \<Rightarrow> aggressiveParagraphs r)"
  "readViewParagraphs rv = structuredParagraphs rv"
  by (simp_all add: extractContent_dispatch extractFallbackContent_exact
      readViewParagraphs_exact structuredParagraphs_def threadParagraphs_def
      articleParagraphs_def aggressiveParagraphs_def
      split: option.splits)

lemma articleParagraphs_origin:
  assumes "p \<in> set (articleParagraphs c)"
  shows "\<exists>e \<in> set (querySelectorAll articleSelector c).
           p = cleanText (elem_innerText e) \<and> closest uiContainers e = None
           \<and> 20 \<le> length p \<and> (length p < 50 \<longrightarrow> \<not> matchesUiPattern p)"
proof -
  from assms obtain e where "e \<in> set (querySelectorAll articleSelector c)"
    "p = cleanText (elem_innerText e)" "passesUiFilter e p"
    by (auto simp: articleParagraphs_def firstOccurrences_set articleCandidates_def)
  then show ?thesis by (intro bexI [of _ e]) (auto simp: passesUiFilter_def)
qed

lemma fallbackCandidates_origin:
  assumes "p \<in> set (fallbackCandidates n es)"
  shows "\<exists>e \<in> set es.
           closest (testid ''quoteTweet'') e = None \<and> closest uiContainers e = None
           \<and> p = extractTextFromElement e \<and> n < length p
           \<and> (length p < 50 \<longrightarrow> \<not> matchesUiPattern p)"
proof -
  from assms obtain e where "e \<in> set es" "closest (testid ''quoteTweet'') e = None"
    "p = extractTextFromElement e" "n < length p" "passesUiFilter e p"
    by (auto simp: fallbackCandidates_def)
  then show ?thesis by (intro bexI [of _ e]) (auto simp: passesUiFilter_def)
qed

lemma aggressiveParagraphs_origin:
  assumes "p \<in> set (aggressiveParagraphs r)"
  shows "(\<exists>e \<in> set (querySelectorAll (testid ''tweetText'') r).
            closest (testid ''quoteTweet'') e = None \<and> closest uiContainers e = None
            \<and> p = extractTextFromElement e \<and> 20 < length p
            \<and> (length p < 50 \<longrightarrow> \<not> matchesUiPattern p))
         \<or> (fallbackCandidates 20 (querySelectorAll (testid ''tweetText'') r) = []
            \<and> (\<exists>e \<in> set (querySelectorAll [Compound [Tag ''div'', HasAttr ''lang'']] r).
                  closest (testid ''quoteTweet'') e = None \<and> closest uiContainers e = None
                  \<and> p = extractTextFromElement e \<and> 30 < length p
                  \<and> (length p < 50 \<longrightarrow> \<not> matchesUiPattern p)))"
proof (cases "firstOccurrences
                (fallbackCandidates 20 (querySelectorAll (testid ''tweetText'') r)) \<noteq> []")
  case True
  then have "p \<in> set (fallbackCandidates 20 (querySelectorAll (testid ''tweetText'') r))"
    using assms by (simp add: aggressiveParagraphs_def firstOccurrences_set)
  then show ?thesis using fallbackCandidates_origin by blast
next
  case False
  then have empty: "fallbackCandidates 20 (querySelectorAll (testid ''tweetText'') r) = []"
    using firstOccurrences_set
      [of "fallbackCandidates 20 (querySelectorAll (testid ''tweetText'') r)"]
    by simp
  have "p \<in> set (fallbackCandidates 30
                  (querySelectorAll [Compound [Tag ''div'', HasAttr ''lang'']] r))"
    using assms False by (simp add: aggressiveParagraphs_def firstOccurrences_set)
  then show ?thesis using fallbackCandidates_origin empty by blast
qed

lemma strategy_distinct:
  "distinct (threadParagraphs d)" "distinct (articleParagraphs c)"
  "distinct (aggressiveParagraphs r)"
  by (simp_all add: threadParagraphs_def articleParagraphs_def aggressiveParagraphs_def
      firstOccurrences_distinct split: option.splits)

lemma structuredParagraphs_good:
  "p \<in> set (structuredParagraphs rv) \<Longrightarrow> p \<noteq> [] \<and> trim p = p \<and> \<not> isButtonText p"
  using readViewParagraphs_good [of p rv] by (simp add: strategy_equations(3))

text \<open>
  Claim C2, as amended. Every paragraph of \<open>extractContent\<close> and of the aggressive
  fallback is trimmed and not empty. \<open>extractContent\<close> returns the paragraphs of one
  strategy: the article-path strategy, else the structured read view when it gives
  some, else the thread strategy. The thread strategy, the article-path strategy and the
  aggressive fallback return the first occurrences of their candidate texts, in
  document order, so with no duplicate; the structured strategy and its line fallback
  return every candidate in order and do not de-duplicate. The structured strategy and
  its line fallback leave out what \<open>isButtonText\<close> recognises. Each text of the
  article-path strategy and of the aggressive fallback comes from an element outside the
  navigation, footer and button containers, has at least 20 characters, and matches no
  UI pattern when it is shorter than 50, which is what \<open>isUIElement\<close> lets pass. The
  thread strategy has no chrome filter.
\<close>

theorem paragraphs_invariant:
  "(\<forall>p \<in> set (paragraphs (extractContent d)) \<union> set (paragraphs (extractFallbackContent d)).
      p \<noteq> [] \<and> trim p = p)
   \<and> paragraphs (extractContent d) =
       (if usesArticlePath d
        then (case articleElement d of Some c \<Rightarrow> articleParagraphs c | None \<Rightarrow> [])
        else (case doc_querySelector (testid ''twitterArticleReadView'') d of
                Some rv \<Rightarrow>
                  (if structuredParagraphs rv \<noteq> [] then structuredParagraphs rv
                   else threadParagraphs d)
              | None \<Rightarrow> threadParagraphs d))
   \<and> paragraphs (extractFallbackContent d) =
       (case fallbackRegion d of None \<Rightarrow> [] | Some r \<Rightarrow> aggressiveParagraphs r)
   \<and> distinct (threadParagraphs d)
   \<and> distinct (articleParagraphs c)
   \<and> distinct (aggressiveParagraphs r)
   \<and> distinct (paragraphs (extractFallbackContent d))
   \<and> (usesArticlePath d
        \<or> (\<forall>rv. doc_querySelector (testid ''twitterArticleReadView'') d = Some rv
                  \<longrightarrow> structuredParagraphs rv = [])
        \<longrightarrow> distinct (paragraphs (extractContent d)))
   \<and> (\<forall>p \<in> set (structuredParagraphs rv). p \<noteq> [] \<and> trim p = p \<and> \<not> isButtonText p)
   \<and> (\<forall>p \<in> set (articleParagraphs c).
         \<exists>e \<in> set (querySelectorAll articleSelector c).
           p = cleanText (elem_innerText e) \<and> closest uiContainers e = None
           \<and> 20 \<le> length p \<and> (length p < 50 \<longrightarrow> \<not> matchesUiPattern p))
   \<and> (\<forall>p \<in> set (aggressiveParagraphs r).
         \<exists>e \<in> set (querySelectorAll (testid ''tweetText'') r)
                \<union> set (querySelectorAll [Compound [Tag ''div'', HasAttr ''lang'']] r).
           p = extractTextFromElement e \<and> closest uiContainers e = None
           \<and> 20 < length p \<and> (length p < 50 \<longrightarrow> \<not> matchesUiPattern p))
   \<and> (passesUiFilter el t \<longleftrightarrow> \<not> isUIElement el t)"
proof (intro conjI)
  show "passesUiFilter el t \<longleftrightarrow> \<not> isUIElement el t"
    by (rule passesUiFilter_iff)
  show "\<forall>p \<in> set (paragraphs (extractContent d))
             \<union> set (paragraphs (extractFallbackContent d)). p \<noteq> [] \<and> trim p = p"
    using extractContent_good extractFallbackContent_good by blast
  show eq: "paragraphs (extractContent d) =
       (if usesArticlePath d
        then (case articleElement d of Some c \<Rightarrow> articleParagraphs c | None \<Rightarrow> [])
        else (case doc_querySelector (testid ''twitterArticleReadView'') d of
                Some rv \<Rightarrow>
                  (if structuredParagraphs rv \<noteq> [] then structuredParagraphs rv
                   else threadParagraphs d)
              | None \<Rightarrow> threadParagraphs d))"
    by (rule strategy_equations(1))
  show "paragraphs (extractFallbackContent d) =
       (case fallbackRegion d of None \<Rightarrow> [] | Some r \<Rightarrow> aggressiveParagraphs r)"
    by (rule strategy_equations(2))
  show "distinct (threadParagraphs d)" "distinct (articleParagraphs c)"
    "distinct (aggressiveParagraphs r)"
    by (rule strategy_distinct)+
  show "distinct (paragraphs (extractFallbackContent d))"
    by (rule extractFallbackContent_distinct)
  show "usesArticlePath d
        \<or> (\<forall>rv. doc_querySelector (testid ''twitterArticleReadView'') d = Some rv
                  \<longrightarrow> structuredParagraphs rv = [])
        \<longrightarrow> distinct (paragraphs (extractContent d))"
    unfolding eq using strategy_distinct
    by (auto split: option.splits)
  show "\<forall>p \<in> set (structuredParagraphs rv). p \<noteq> [] \<and> trim p = p \<and> \<not> isButtonText p"
    using structuredParagraphs_good by blast
  show "\<forall>p \<in> set (articleParagraphs c).
         \<exists>e \<in> set (querySelectorAll articleSelector c).
           p = cleanText (elem_innerText e) \<and> closest uiContainers e = None
           \<and> 20 \<le> length p \<and> (length p < 50 \<longrightarrow> \<not> matchesUiPattern p)"
    using articleParagraphs_origin by blast
  show "\<forall>p \<in> set (aggressiveParagraphs r).
         \<exists>e \<in> set (querySelectorAll (testid ''tweetText'') r)
                \<union> set (querySelectorAll [Compound [Tag ''div'', HasAttr ''lang'']] r).
           p = extractTextFromElement e \<and> closest uiContainers e = None
           \<and> 20 < length p \<and> (length p < 50 \<longrightarrow> \<not> matchesUiPattern p)"
  proof
    fix p assume "p \<in> set (aggressiveParagraphs r)"
    from aggressiveParagraphs_origin [OF this]
    show "\<exists>e \<in> set (querySelectorAll (testid ''tweetText'') r)
                \<union> set (querySelectorAll [Compound [Tag ''div'', HasAttr ''lang'']] r).
           p = extractTextFromElement e \<and> closest uiContainers e = None
           \<and> 20 < length p \<and> (length p < 50 \<longrightarrow> \<not> matchesUiPattern p)"
      by (elim disjE bexE conjE) (rule bexI, auto)+
  qed
qed

lemma repeatedBlockPage_paragraphs:
  "paragraphs (extractContent repeatedBlockPage) = [''Hello'', ''Hello'']"
  by code_simp

lemma counterPage_paragraphs: "paragraphs (extractContent counterPage) = [''1.2K'']"
  by code_simp

lemma counter_is_button_text: "isButtonText ''1.2K''"
  by code_simp

theorem paragraphs_invariant_counterexample:
  "\<not> distinct (paragraphs (extractContent repeatedBlockPage))
   \<and> ''1.2K'' \<in> set (paragraphs (extractContent counterPage)) \<and> isButtonText ''1.2K''"
  by (simp add: repeatedBlockPage_paragraphs counterPage_paragraphs counter_is_button_text)

lemma strategy_values:
  "usesArticlePath articlePage"
  "(case articleElement articlePage of Some c \<Rightarrow> articleParagraphs c | None \<Rightarrow> [])
     = [''Reading aloud is an old habit.'']"
  "\<not> usesArticlePath quotePage"
  "doc_querySelector (testid ''twitterArticleReadView'') quotePage = None"
  "threadParagraphs quotePage = [''Hello world, this is a short test post.'', ''Nice!'']"
  "(case fallbackRegion quotePage of None \<Rightarrow> [] | Some r \<Rightarrow> aggressiveParagraphs r)
     = [''Hello world, this is a short test post.'']"
  "\<not> usesArticlePath repeatedBlockPage"
  "(case doc_querySelector (testid ''twitterArticleReadView'') repeatedBlockPage of
      Some rv \<Rightarrow> (if structuredParagraphs rv \<noteq> [] then structuredParagraphs rv
                  else threadParagraphs repeatedBlockPage)
    | None \<Rightarrow> threadParagraphs repeatedBlockPage) = [''Hello'', ''Hello'']"
  by code_simp+

theorem paragraphs_invariant_witness:
  "paragraphs (extractContent articlePage) = [''Reading aloud is an old habit.'']
   \<and> trim ''Reading aloud is an old habit.'' = ''Reading aloud is an old habit.''
   \<and> paragraphs (extractContent quotePage)
       = [''Hello world, this is a short test post.'', ''Nice!'']
   \<and> distinct (paragraphs (extractContent quotePage))
   \<and> paragraphs (extractFallbackContent quotePage)
       = [''Hello world, this is a short test post.'']
   \<and> paragraphs (extractContent repeatedBlockPage) = [''Hello'', ''Hello'']"
proof -
  note a = paragraphs_invariant [of articlePage]
    and q = paragraphs_invariant [of quotePage]
    and r = paragraphs_invariant [of repeatedBlockPage]
  have pa: "paragraphs (extractContent articlePage) = [''Reading aloud is an old habit.'']"
    using a by (simp add: strategy_values)
  have "trim ''Reading aloud is an old habit.'' = ''Reading aloud is an old habit.''"
    using a by (simp add: pa)
  moreover have pq: "paragraphs (extractContent quotePage)
       = [''Hello world, this is a short test post.'', ''Nice!'']"
    using q by (simp add: strategy_values)
  moreover have "distinct (paragraphs (extractContent quotePage))"
    using q by (simp add: strategy_values(3,4))
  moreover have "paragraphs (extractFallbackContent quotePage)
       = [''Hello world, this is a short test post.'']"
    using q by (simp add: strategy_values)
  moreover have "paragraphs (extractContent repeatedBlockPage) = [''Hello'', ''Hello'']"
    using r by (simp add: strategy_values)
  ultimately show ?thesis using pa by simp
qed

section \<open>The thread strategy and the aggressive fallback\<close>







section \<open>The length threshold and the thread detection\<close>

lemma thread_step_fold:
  "fold (thread_step h) ts st =
     (fst st + length (filter (\<lambda>t. closest (testid ''quoteTweet'') t = None
                                  \<and> extractAuthorFromElement t = Some h) ts),
      snd st + sum_list (map tweetTextLength
                 (filter (\<lambda>t. closest (testid ''quoteTweet'') t = None
                               \<and> extractAuthorFromElement t = Some h) ts)))"
proof (induction ts arbitrary: st)
  case Nil
  then show ?case by simp
next
  case (Cons t ts)
  let ?P = "\<lambda>t. closest (testid ''quoteTweet'') t = None \<and> extractAuthorFromElement t = Some h"
  have "fold (thread_step h) (t # ts) st = fold (thread_step h) ts (thread_step h t st)"
    by simp
  also have "\<dots> = (fst (thread_step h t st) + length (filter ?P ts),
                   snd (thread_step h t st) + sum_list (map tweetTextLength (filter ?P ts)))"
    by (rule Cons.IH)
  also have "\<dots> = (fst st + length (filter ?P (t # ts)),
                   snd st + sum_list (map tweetTextLength (filter ?P (t # ts))))"
    by (cases "?P t") (auto simp: thread_step_def)
  finally show ?case .
qed

lemma split_first:
  "split sep s =
     takeWhile (\<lambda>x. x \<noteq> sep) s
     # (case dropWhile (\<lambda>x. x \<noteq> sep) s of [] \<Rightarrow> [] | c # r \<Rightarrow> split sep r)"
proof (induction s)
  case Nil
  then show ?case by simp
next
  case (Cons a s)
  show ?case
  proof (cases "a = sep")
    case True
    then show ?thesis by simp
  next
    case False
    then show ?thesis using Cons by (simp split: list.splits)
  qed
qed

lemma split_not_Nil: "split sep s \<noteq> []"
  by (subst split_first) simp

lemma pathFirstSegment_iff:
  "pathFirstSegment p =
     (case p of [] \<Rightarrow> None
      | c # cs \<Rightarrow>
          if c = CHR ''/'' \<and> takeWhile (\<lambda>x. x \<noteq> CHR ''/'') cs \<noteq> []
             \<and> dropWhile (\<lambda>x. x \<noteq> CHR ''/'') cs \<noteq> []
          then Some (takeWhile (\<lambda>x. x \<noteq> CHR ''/'') cs)
          else None)"
proof (cases p)
  case Nil
  then show ?thesis by (simp add: pathFirstSegment_def)
next
  case (Cons c cs)
  obtain r rs where r: "split (CHR ''/'') cs = r # rs"
    using split_not_Nil [of "CHR ''/''" cs] by (cases "split (CHR ''/'') cs") auto
  show ?thesis
  proof (cases "c = CHR ''/''")
    case False
    then have "split (CHR ''/'') (c # cs) = (c # r) # rs" using r by simp
    then show ?thesis using False Cons
      by (simp add: pathFirstSegment_def split: list.splits)
  next
    case True
    have first: "split (CHR ''/'') (c # cs) = [] # split (CHR ''/'') cs"
      using True by simp
    have rest: "split (CHR ''/'') cs = takeWhile (\<lambda>x. x \<noteq> CHR ''/'') cs
        # (case dropWhile (\<lambda>x. x \<noteq> CHR ''/'') cs of [] \<Rightarrow> []
           | c # r \<Rightarrow> split (CHR ''/'') r)"
      by (rule split_first)
    show ?thesis
    proof (cases "dropWhile (\<lambda>x. x \<noteq> CHR ''/'') cs")
      case Nil
      have "split (CHR ''/'') cs = [takeWhile (\<lambda>x. x \<noteq> CHR ''/'') cs]"
        by (subst split_first) (simp only: Nil list.case)
      then have "split (CHR ''/'') p = [[], takeWhile (\<lambda>x. x \<noteq> CHR ''/'') cs]"
        using first \<open>p = c # cs\<close> by simp
      then have "pathFirstSegment p = None" by (simp add: pathFirstSegment_def)
      moreover have "(case p of [] \<Rightarrow> None
          | c # cs \<Rightarrow>
              if c = CHR ''/'' \<and> takeWhile (\<lambda>x. x \<noteq> CHR ''/'') cs \<noteq> []
                 \<and> dropWhile (\<lambda>x. x \<noteq> CHR ''/'') cs \<noteq> []
              then Some (takeWhile (\<lambda>x. x \<noteq> CHR ''/'') cs)
              else None) = None"
        unfolding \<open>p = c # cs\<close> list.case Nil by simp
      ultimately show ?thesis by simp
    next
      case (Cons b q)
      obtain m ms where m: "split (CHR ''/'') q = m # ms"
        using split_not_Nil [of "CHR ''/''" q] by (cases "split (CHR ''/'') q") auto
      have "split (CHR ''/'') cs = takeWhile (\<lambda>x. x \<noteq> CHR ''/'') cs # m # ms"
        by (subst split_first) (simp only: Cons list.case m)
      then have sp: "split (CHR ''/'') p = [] # takeWhile (\<lambda>x. x \<noteq> CHR ''/'') cs # m # ms"
        using first \<open>p = c # cs\<close> by simp
      have "pathFirstSegment p =
          (if takeWhile (\<lambda>x. x \<noteq> CHR ''/'') cs \<noteq> []
           then Some (takeWhile (\<lambda>x. x \<noteq> CHR ''/'') cs) else None)"
        by (simp add: pathFirstSegment_def sp)
      moreover have "(case p of [] \<Rightarrow> None
          | c # cs \<Rightarrow>
              if c = CHR ''/'' \<and> takeWhile (\<lambda>x. x \<noteq> CHR ''/'') cs \<noteq> []
                 \<and> dropWhile (\<lambda>x. x \<noteq> CHR ''/'') cs \<noteq> []
              then Some (takeWhile (\<lambda>x. x \<noteq> CHR ''/'') cs)
              else None) =
          (if takeWhile (\<lambda>x. x \<noteq> CHR ''/'') cs \<noteq> []
           then Some (takeWhile (\<lambda>x. x \<noteq> CHR ''/'') cs) else None)"
        unfolding \<open>p = c # cs\<close> list.case Cons using True by simp
      ultimately show ?thesis by simp
    qed
  qed
qed

lemma getAuthorHandle_segment:
  "getAuthorHandle d = map_option toLowerCase (pathFirstSegment (pathname d))"
  by (simp add: getAuthorHandle_def pathFirstSegment_iff split: list.splits)


lemma threadCheck_verdict:
  "fst (threadCheck d pc) \<longleftrightarrow>
     2 \<le> length (authorItems d pc)
     \<and> 400 \<le> sum_list (map tweetTextLength (authorItems d pc))"
  by (cases "pathFirstSegment (pathname d)")
     (simp_all add: threadCheck_def authorItems_def Let_def thread_step_fold
        getAuthorHandle_segment MIN_THREAD_TWEETS_def MIN_THREAD_CONTENT_LENGTH_def)

lemma classifier_tail:
  assumes "\<not> isExplicitArticleUrl (pathname d)"
    and "isStatusUrl (pathname d)"
    and "doc_querySelector (testid ''primaryColumn'') d = Some pc"
    and "articleContainer d = None"
    and "\<not> list_ex isLabelSpan (querySelectorAll [Compound [Tag ''span'']] pc)"
    and "doc_querySelector (testid ''tweet-text-show-more-link'') d = None"
    and "getMainTweetElement d = Some m"
  shows "isArticlePage d \<longleftrightarrow>
           280 < tweetTextLength m
           \<or> (2 \<le> length (authorItems d pc)
              \<and> 400 \<le> sum_list (map tweetTextLength (authorItems d pc)))"
  using assms threadCheck_verdict [of d pc]
  by (simp add: isArticlePage_def isArticlePage_run_def mainTweetCheck_def Let_def
      MIN_SINGLE_TWEET_LENGTH_def)





lemma length_map_eq: "map f xs = ys \<Longrightarrow> length xs = length ys"
  by auto


text \<open>
  Claim C4. On a single-item path with no structural long-form signal, the main item
  alone makes the page long-form exactly when its text is longer than 280 characters:
  with 281 characters \<open>isArticlePage\<close> is true, with 280 it is true only through the
  thread detection, so false when there is no qualifying thread.
\<close>

theorem single_item_threshold:
  assumes "\<not> isExplicitArticleUrl (pathname d)"
    and "isStatusUrl (pathname d)"
    and "doc_querySelector (testid ''primaryColumn'') d = Some pc"
    and "articleContainer d = None"
    and "\<not> list_ex isLabelSpan (querySelectorAll [Compound [Tag ''span'']] pc)"
    and "doc_querySelector (testid ''tweet-text-show-more-link'') d = None"
    and "getMainTweetElement d = Some m"
  shows "(isArticlePage d \<longleftrightarrow>
            280 < tweetTextLength m
            \<or> (2 \<le> length (authorItems d pc)
               \<and> 400 \<le> sum_list (map tweetTextLength (authorItems d pc))))
     \<and> (tweetTextLength m = 281 \<longrightarrow> isArticlePage d)
     \<and> (tweetTextLength m = 280
          \<and> \<not> (2 \<le> length (authorItems d pc)
                 \<and> 400 \<le> sum_list (map tweetTextLength (authorItems d pc)))
          \<longrightarrow> \<not> isArticlePage d)"
  using classifier_tail [OF assms] by simp

lemma single_page:
  "\<not> isExplicitArticleUrl (pathname (statusPage t [tweetItem h a]))"
  "isStatusUrl (pathname (statusPage t [tweetItem h a]))"
  "doc_querySelector (testid ''primaryColumn'') (statusPage t [tweetItem h a])
     = Some (pcOf [tweetItem h a])"
  "articleContainer (statusPage t [tweetItem h a]) = None"
  "\<not> list_ex isLabelSpan (querySelectorAll [Compound [Tag ''span'']] (pcOf [tweetItem h a]))"
  "doc_querySelector (testid ''tweet-text-show-more-link'') (statusPage t [tweetItem h a]) = None"
  "getMainTweetElement (statusPage t [tweetItem h a]) = Some (itemAt h a)"
  "tweetTextLength (itemAt h a) = length a"
  by code_simp+

lemma single_items:
  "map tweetTextLength (authorItems (statusPage t [tweetItem ''alice'' a])
       (pcOf [tweetItem ''alice'' a])) = [length a]"
  by code_simp

theorem single_item_threshold_witness:
  "\<not> isArticlePage (statusPage [] [tweetItem ''alice'' (replicate 280 (CHR ''a''))])
   \<and> isArticlePage (statusPage [] [tweetItem ''alice'' (replicate 281 (CHR ''a''))])"
proof -
  have "isArticlePage (statusPage [] [tweetItem ''alice'' a]) \<longleftrightarrow> 280 < length a" for a
  proof -
    note sp = single_page
    have "length (authorItems (statusPage [] [tweetItem ''alice'' a])
             (pcOf [tweetItem ''alice'' a])) = 1"
      using length_map_eq [OF single_items [of "[]" a]] by simp
    then show ?thesis
      using single_item_threshold [OF sp(1-7)] by (simp add: sp(8))
  qed
  from this [of "replicate 280 (CHR ''a'')"] this [of "replicate 281 (CHR ''a'')"]
  show ?thesis by simp
qed

section \<open>The noise filters\<close>









section \<open>The end-to-end scenario\<close>

lemma triple_run:
  "isArticlePage_run (statusPage t [tweetItem ''alice'' a, tweetItem ''bob'' b, tweetItem ''alice'' c])
     = (if 280 < length a then (True, [LongSingleTweet (length a)])
        else if 400 \<le> length a + length c
        then (True, [ThreadFound 2 (length a + length c) ''alice''])
        else (False, [NotEnoughContent 2 (length a + length c)]))"
proof -
  let ?d = "statusPage t [tweetItem ''alice'' a, tweetItem ''bob'' b, tweetItem ''alice'' c]"
  let ?pc = "pcOf [tweetItem ''alice'' a, tweetItem ''bob'' b, tweetItem ''alice'' c]"
  have facts:
    "\<not> isExplicitArticleUrl (pathname ?d)"
    "isStatusUrl (pathname ?d)"
    "doc_querySelector (testid ''primaryColumn'') ?d = Some ?pc"
    "articleContainer ?d = None"
    "\<not> list_ex isLabelSpan (querySelectorAll [Compound [Tag ''span'']] ?pc)"
    "doc_querySelector (testid ''tweet-text-show-more-link'') ?d = None"
    "getMainTweetElement ?d = Some (itemAt ''alice'' a)"
    "tweetTextLength (itemAt ''alice'' a) = length a"
    "getAuthorHandle ?d = Some ''alice''"
    "map tweetTextLength
       (filter (\<lambda>t. closest (testid ''quoteTweet'') t = None
                     \<and> extractAuthorFromElement t = Some ''alice'')
          (querySelectorAll [Compound [Tag ''article'', AttrEq ''data-testid'' ''tweet'']] ?pc))
     = [length a, length c]"
    by code_simp+
  have len: "length (filter (\<lambda>t. closest (testid ''quoteTweet'') t = None
                     \<and> extractAuthorFromElement t = Some ''alice'')
          (querySelectorAll [Compound [Tag ''article'', AttrEq ''data-testid'' ''tweet'']] ?pc))
     = 2"
    using arg_cong [OF facts(10), of length] by simp
  show ?thesis
    by (simp add: isArticlePage_run_def facts(1-9) mainTweetCheck_def threadCheck_def Let_def
        thread_step_fold facts(10) len MIN_SINGLE_TWEET_LENGTH_def MIN_THREAD_TWEETS_def
        MIN_THREAD_CONTENT_LENGTH_def)
qed

lemma triple_text:
  assumes "trim a = a" "trim b = b" "trim c = c" "distinct [a, b, c]"
    and "a \<noteq> []" "b \<noteq> []" "c \<noteq> []"
  shows "getReadableText (statusPage [] [tweetItem ''alice'' a, tweetItem ''bob'' b,
                                         tweetItem ''alice'' c])
           = Some (a @ blankLine @ b @ blankLine @ c)"
proof -
  let ?d = "statusPage [] [tweetItem ''alice'' a, tweetItem ''bob'' b, tweetItem ''alice'' c]"
  let ?pc = "pcOf [tweetItem ''alice'' a, tweetItem ''bob'' b, tweetItem ''alice'' c]"
  have facts:
    "\<not> includes_str ''/article/'' (pathname ?d)"
    "doc_querySelector (testid ''twitterArticleReadView'') ?d = None"
    "doc_querySelector (testid ''primaryColumn'') ?d = Some ?pc"
    "extractAuthor ?d = []"
    "threadCandidates (querySelectorAll (testid ''tweetText'') ?pc)
       = filter (\<lambda>t. t \<noteq> []) [trim a, trim b, trim c]"
    by code_simp+
  have "paragraphs (extractContent ?d) = firstOccurrences [a, b, c]"
    using assms
    by (simp add: extractContent_def extractStatusContent_def Let_def facts
        extractThreadContent_paragraphs)
  then have "paragraphs (extractContent ?d) = [a, b, c]"
    using assms(4) by (simp add: firstOccurrences_id)
  then show ?thesis
    by (simp add: getReadableText_cases authorLine_def facts(4))
qed

lemma scenario_texts:
  "trim ''Hello world, this is a short test post.'' = ''Hello world, this is a short test post.''"
  "length ''Hello world, this is a short test post.'' = 39"
  "\<not> isWS (CHR ''b'')" "\<not> isWS (CHR ''c'')"
  by code_simp+

lemma scenario_text:
  "getReadableText scenarioPage
     = Some (''Hello world, this is a short test post.'' @ blankLine
             @ replicate 500 (CHR ''b'') @ blankLine @ replicate 380 (CHR ''c''))"
proof -
  have ne: "x \<noteq> y" if "length x \<noteq> length y" for x y :: string
    using that by auto
  have "trim (replicate 500 (CHR ''b'')) = replicate 500 (CHR ''b'')"
    "trim (replicate 380 (CHR ''c'')) = replicate 380 (CHR ''c'')"
    by (rule trim_id, simp add: scenario_texts)+
  moreover have "distinct [''Hello world, this is a short test post.'',
                          replicate 500 (CHR ''b''), replicate 380 (CHR ''c'')]"
    using ne [of "''Hello world, this is a short test post.''" "replicate 500 (CHR ''b'')"]
      ne [of "''Hello world, this is a short test post.''" "replicate 380 (CHR ''c'')"]
      ne [of "replicate 500 (CHR ''b'')" "replicate 380 (CHR ''c'')"]
    by simp
  moreover have "replicate 500 (CHR ''b'') \<noteq> []" "replicate 380 (CHR ''c'') \<noteq> []"
    by simp_all
  ultimately show ?thesis
    unfolding scenarioPage_def by (intro triple_text) (simp_all add: scenario_texts(1))
qed

lemma scenario_run: "isArticlePage_run scenarioPage = (True, [ThreadFound 2 419 ''alice''])"
  unfolding scenarioPage_def by (simp add: triple_run)

text \<open>
  Claim C1, as amended. In the scenario (a main item of 39 characters by author A, an
  item of 500 characters by author B, a second item of 380 characters by author A, on a
  single-item path of A), \<open>isArticlePage\<close> is true through the thread detection (2 items
  of A, 419 characters), and \<open>getReadableText\<close> returns the three paragraphs in document
  order, joined with blank lines: the extraction does not filter by author, so the
  paragraph of author B is part of the text.
\<close>

theorem thread_scenario:
  "isArticlePage scenarioPage
   \<and> isArticlePage_run scenarioPage = (True, [ThreadFound 2 419 ''alice''])
   \<and> getReadableText scenarioPage
       = Some (''Hello world, this is a short test post.'' @ blankLine
               @ replicate 500 (CHR ''b'') @ blankLine @ replicate 380 (CHR ''c''))"
  by (simp add: isArticlePage_def scenario_run scenario_text)

theorem thread_scenario_counterexample:
  "isArticlePage scenarioPage
   \<and> getReadableText scenarioPage
       \<noteq> Some (''Hello world, this is a short test post.'' @ blankLine
                @ replicate 380 (CHR ''c''))"
proof -
  have "length (''Hello world, this is a short test post.'' @ blankLine
             @ replicate 500 (CHR ''b'') @ blankLine @ replicate 380 (CHR ''c''))
        \<noteq> length (''Hello world, this is a short test post.'' @ blankLine
                @ replicate 380 (CHR ''c''))"
    by simp
  then have "''Hello world, this is a short test post.'' @ blankLine
             @ replicate 500 (CHR ''b'') @ blankLine @ replicate 380 (CHR ''c'')
        \<noteq> ''Hello world, this is a short test post.'' @ blankLine
                @ replicate 380 (CHR ''c'')"
    by (metis (no_types))
  then show ?thesis
    by (simp add: isArticlePage_def scenario_run scenario_text)
qed

end
